theory Spec2Isabelle
  imports Main "HOL-Library.Word"
begin

section \<open>JavaScript strings and maps\<close>

text \<open>
  Paths, route keys and command line tokens are JavaScript strings; they are modelled as
  lists of characters, a character being a code unit below 256 (the Latin-1 range).  The
  string methods the library calls are written out with the clamping JavaScript performs on
  out-of-range indices.
\<close>

definition startsWith :: "'a list \<Rightarrow> 'a list \<Rightarrow> bool" where
  "startsWith s p = (take (length p) s = p)"

definition endsWith :: "'a list \<Rightarrow> 'a list \<Rightarrow> bool" where
  "endsWith s p = (length p \<le> length s \<and> drop (length s - length p) s = p)"

text \<open>\<open>s.substring(a)\<close> and \<open>s.substring(a, b)\<close>: indices beyond the length are clamped, and
  the two indices are swapped when the first is larger.\<close>

definition substringFrom :: "'a list \<Rightarrow> nat \<Rightarrow> 'a list" where
  "substringFrom s a = drop a s"

definition substring :: "'a list \<Rightarrow> nat \<Rightarrow> nat \<Rightarrow> 'a list" where
  "substring s a b = take (max a b - min a b) (drop (min a b) s)"

text \<open>\<open>s.indexOf(c, pos)\<close> for a one-character search string; \<open>None\<close> stands for \<open>-1\<close>.\<close>

fun indexOfAux :: "'a \<Rightarrow> 'a list \<Rightarrow> nat \<Rightarrow> nat option" where
  "indexOfAux c [] i = None"
| "indexOfAux c (x # xs) i = (if x = c then Some i else indexOfAux c xs (Suc i))"

definition indexOf :: "'a list \<Rightarrow> 'a \<Rightarrow> nat \<Rightarrow> nat option" where
  "indexOf s c pos = indexOfAux c (drop pos s) pos"

text \<open>\<open>toLowerCase\<close>.  Below 256 the code units with a lower-case form of their own are the
  letters \<open>A\<close> to \<open>Z\<close> and the Latin-1 capitals \<open>0xC0\<close> to \<open>0xDE\<close> without the
  multiplication sign \<open>0xD7\<close>; the lower-case form lies 32 above.\<close>

definition upperCaseLetters :: string where
  "upperCaseLetters =
     ''ABCDEFGHIJKLMNOPQRSTUVWXYZ'' @
     [CHR 0xC0, CHR 0xC1, CHR 0xC2, CHR 0xC3, CHR 0xC4, CHR 0xC5, CHR 0xC6, CHR 0xC7,
      CHR 0xC8, CHR 0xC9, CHR 0xCA, CHR 0xCB, CHR 0xCC, CHR 0xCD, CHR 0xCE, CHR 0xCF,
      CHR 0xD0, CHR 0xD1, CHR 0xD2, CHR 0xD3, CHR 0xD4, CHR 0xD5, CHR 0xD6, CHR 0xD8,
      CHR 0xD9, CHR 0xDA, CHR 0xDB, CHR 0xDC, CHR 0xDD, CHR 0xDE]"

definition lowerCaseLetters :: string where
  "lowerCaseLetters =
     ''abcdefghijklmnopqrstuvwxyz'' @
     [CHR 0xE0, CHR 0xE1, CHR 0xE2, CHR 0xE3, CHR 0xE4, CHR 0xE5, CHR 0xE6, CHR 0xE7,
      CHR 0xE8, CHR 0xE9, CHR 0xEA, CHR 0xEB, CHR 0xEC, CHR 0xED, CHR 0xEE, CHR 0xEF,
      CHR 0xF0, CHR 0xF1, CHR 0xF2, CHR 0xF3, CHR 0xF4, CHR 0xF5, CHR 0xF6, CHR 0xF8,
      CHR 0xF9, CHR 0xFA, CHR 0xFB, CHR 0xFC, CHR 0xFD, CHR 0xFE]"

definition toLowerChar :: "char \<Rightarrow> char" where
  "toLowerChar c =
     (case map_of (zip upperCaseLetters lowerCaseLetters) c of
        Some l \<Rightarrow> l
      | None \<Rightarrow> c)"

definition toLowerCase :: "string \<Rightarrow> string" where
  "toLowerCase s = map toLowerChar s"

text \<open>
  A JavaScript \<open>Map\<close> keeps its entries in insertion order; \<open>set\<close> on a key that is present
  replaces the value in place, and appends the entry otherwise.
\<close>

fun map_set :: "'k \<Rightarrow> 'v \<Rightarrow> ('k \<times> 'v) list \<Rightarrow> ('k \<times> 'v) list" where
  "map_set k v [] = [(k, v)]"
| "map_set k v ((k', v') # m) =
     (if k' = k then (k, v) # m else (k', v') # map_set k v m)"

definition map_get :: "('k \<times> 'v) list \<Rightarrow> 'k \<Rightarrow> 'v option" where
  "map_get m k = map_of m k"

section \<open>ParsedArgs\<close>

record parsed_args =
  args :: "string list"
  options :: "(string \<times> string option) list"

text \<open>The body of the loop of \<open>ParsedArgs.parse\<close>, on the pair \<open>(argsRes, optionsRes)\<close>.\<close>

definition parse_arg ::
  "string \<Rightarrow> string list \<times> (string \<times> string option) list
     \<Rightarrow> string list \<times> (string \<times> string option) list" where
  "parse_arg arg st =
     (case st of (argsRes, optionsRes) \<Rightarrow>
        if startsWith arg ''--'' then
          (case indexOf arg (CHR ''='') 0 of
             None \<Rightarrow> (argsRes, map_set (substringFrom arg 2) None optionsRes)
           | Some eqIdx \<Rightarrow>
               (argsRes,
                map_set (substring arg 2 eqIdx) (Some (substringFrom arg (eqIdx + 1)))
                  optionsRes))
        else (argsRes @ [arg], optionsRes))"

definition parse :: "string list \<Rightarrow> bool \<Rightarrow> parsed_args" where
  "parse rawArgs sliceFirstTwo =
     (let as = (if sliceFirstTwo then drop 2 rawArgs else rawArgs);
          st = foldl (\<lambda>st arg. parse_arg arg st) ([], []) as
      in \<lparr>args = fst st, options = snd st\<rparr>)"

definition getOption :: "parsed_args \<Rightarrow> string \<Rightarrow> string option option" where
  "getOption p arg = map_get (options p) arg"

definition isOptionTrue :: "parsed_args \<Rightarrow> string \<Rightarrow> bool \<Rightarrow> string list \<Rightarrow> bool \<Rightarrow> bool" where
  "isOptionTrue p arg useNoValueAsTrue trueValues trueValuesCaseSensitive =
     (case map_get (options p) arg of
        None \<Rightarrow> False
      | Some None \<Rightarrow> useNoValueAsTrue
      | Some (Some val) \<Rightarrow>
          if trueValuesCaseSensitive then val \<in> set trueValues
          else list_ex (\<lambda>trueVal. toLowerCase val = toLowerCase trueVal) trueValues)"

text \<open>The default parameters of \<open>isOptionTrue\<close>.\<close>

definition isOptionTrueDefault :: "parsed_args \<Rightarrow> string \<Rightarrow> bool" where
  "isOptionTrueDefault p arg = isOptionTrue p arg True [''true'', ''yes'', ''y'', ''1''] False"

text \<open>
  The option parsing contract in the words of the specification: a token that begins with
  two hyphens is an option; the text before its first \<open>=\<close> (after the hyphens) is the key
  and the text after it the value; without \<open>=\<close> the value is null.
\<close>

definition spec_is_option :: "string \<Rightarrow> bool" where
  "spec_is_option tok = (take 2 tok = ''--'')"

definition spec_option :: "string \<Rightarrow> string \<times> string option" where
  "spec_option tok =
     (takeWhile (\<lambda>c. c \<noteq> CHR ''='') (drop 2 tok),
      if CHR ''='' \<in> set tok then Some (tl (dropWhile (\<lambda>c. c \<noteq> CHR ''='') tok)) else None)"

section \<open>Platform: paths and the file system\<close>

text \<open>
  \<open>joinPaths\<close> is \<open>join\<close> of the platform's \<open>path\<close> module and \<open>dirname\<close> comes from
  \<open>path/posix\<close>.  Both are modelled for POSIX paths (separator \<open>/\<close>): \<open>join\<close> drops empty
  arguments, joins the others with \<open>/\<close> and normalises the result, which removes empty and
  \<open>.\<close> segments and resolves \<open>..\<close> against the segment before it.
\<close>

fun split_on :: "'a \<Rightarrow> 'a list \<Rightarrow> 'a list list" where
  "split_on c [] = [[]]"
| "split_on c (x # xs) =
     (if x = c then [] # split_on c xs
      else (case split_on c xs of [] \<Rightarrow> [[x]] | w # ws \<Rightarrow> (x # w) # ws))"

definition normalizeStep :: "bool \<Rightarrow> string list \<Rightarrow> string \<Rightarrow> string list" where
  "normalizeStep allowAboveRoot res seg =
     (if seg = [] \<or> seg = ''.'' then res
      else if seg = ''..'' then
        (if res \<noteq> [] \<and> last res \<noteq> ''..'' then butlast res
         else if allowAboveRoot then res @ [''..''] else res)
      else res @ [seg])"

definition normalizeSegments :: "bool \<Rightarrow> string list \<Rightarrow> string list" where
  "normalizeSegments allowAboveRoot segs = foldl (normalizeStep allowAboveRoot) [] segs"

fun joinSegments :: "string list \<Rightarrow> string" where
  "joinSegments [] = []"
| "joinSegments [s] = s"
| "joinSegments (s # t # ss) = s @ ''/'' @ joinSegments (t # ss)"

definition isAbsolute :: "string \<Rightarrow> bool" where
  "isAbsolute path = startsWith path ''/''"

definition normalize :: "string \<Rightarrow> string" where
  "normalize path =
     (if path = [] then ''.''
      else
        let trailingSeparator = endsWith path ''/'';
            p = joinSegments (normalizeSegments (\<not> isAbsolute path) (split_on (CHR ''/'') path))
        in if p = [] then (if isAbsolute path then ''/'' else if trailingSeparator then ''./'' else ''.'')
           else (if isAbsolute path then ''/'' else []) @ p @ (if trailingSeparator then ''/'' else []))"

definition joinPaths :: "string \<Rightarrow> string \<Rightarrow> string" where
  "joinPaths a b =
     (let parts = filter (\<lambda>arg. arg \<noteq> []) [a, b]
      in if parts = [] then ''.'' else normalize (joinSegments parts))"

text \<open>
  The lexical form of a path: whether it is absolute, and its segments after normalisation.
  A path lies lexically inside a directory when both are absolute or both relative, the
  directory's segments are a prefix of the path's, and no \<open>..\<close> follows that prefix.
\<close>

definition lexicalForm :: "string \<Rightarrow> bool \<times> string list" where
  "lexicalForm path =
     (isAbsolute path, normalizeSegments (\<not> isAbsolute path) (split_on (CHR ''/'') path))"

definition lexicallyInside :: "string \<Rightarrow> string \<Rightarrow> bool" where
  "lexicallyInside dir path =
     (case lexicalForm dir of
        (da, ds) \<Rightarrow>
          (case lexicalForm path of
             (pa, ps) \<Rightarrow>
               da = pa \<and> take (length ds) ps = ds \<and> ''..'' \<notin> set (drop (length ds) ps)))"

text \<open>\<open>dirname\<close>: trailing slashes are ignored, and the result is the text before the last
  slash that is left (the slash at index 0 is the root).\<close>

definition dirname :: "string \<Rightarrow> string" where
  "dirname path =
     (if path = [] then ''.''
      else
        let hasRoot = (hd path = CHR ''/'');
            t = dropWhile (\<lambda>c. c \<noteq> CHR ''/'') (dropWhile (\<lambda>c. c = CHR ''/'') (rev (tl path)));
            end = length t
        in if t = [] then (if hasRoot then ''/'' else ''.'')
           else if hasRoot \<and> end = 1 then ''//''
           else take end path)"

text \<open>
  The file system is a finite table from absolute paths (lists of segments) to nodes; the
  root directory is always there.  A process has a working directory, against which
  relative paths are resolved.
\<close>

type_synonym byte = "8 word"

datatype node = File "byte list" | Dir

datatype errno = ENOENT | ENOTDIR | EEXIST | EISDIR

datatype error = SystemError errno | Error string | TypeError

record world =
  files :: "(string list \<times> node) list"
  cwd :: "string list"
  console :: "string list"

definition resolvePath :: "world \<Rightarrow> string \<Rightarrow> string list" where
  "resolvePath w path =
     normalizeSegments False
       ((if isAbsolute path then [] else cwd w) @ split_on (CHR ''/'') path)"

text \<open>\<open>lookupFrom fs dir rest\<close> walks down from the directory \<open>dir\<close> along \<open>rest\<close>.\<close>

fun lookupFrom :: "(string list \<times> node) list \<Rightarrow> string list \<Rightarrow> string list \<Rightarrow> errno + node" where
  "lookupFrom fs dir [] = Inr Dir"
| "lookupFrom fs dir (s # rest) =
     (case map_of fs (dir @ [s]) of
        None \<Rightarrow> Inl ENOENT
      | Some (File c) \<Rightarrow> if rest = [] then Inr (File c) else Inl ENOTDIR
      | Some Dir \<Rightarrow> lookupFrom fs (dir @ [s]) rest)"

text \<open>The system calls reject the empty path with \<open>ENOENT\<close>.\<close>

definition stat :: "world \<Rightarrow> string \<Rightarrow> error + node" where
  "stat w path =
     (if path = [] then Inl (SystemError ENOENT)
      else
        (case lookupFrom (files w) [] (resolvePath w path) of
           Inl e \<Rightarrow> Inl (SystemError e)
         | Inr Dir \<Rightarrow> Inr Dir
         | Inr (File c) \<Rightarrow> if endsWith path ''/'' then Inl (SystemError ENOTDIR) else Inr (File c)))"

fun isFile :: "node \<Rightarrow> bool" where
  "isFile (File c) = True"
| "isFile Dir = False"

fun isDirectory :: "node \<Rightarrow> bool" where
  "isDirectory (File c) = False"
| "isDirectory Dir = True"

section \<open>Render results\<close>

text \<open>
  Text is a list of Unicode code points.  A renderer returns a string, a \<open>Uint8Array\<close>, a
  \<open>ReadableStream\<close> (the list of its chunks) or a JSX element; the element is represented by
  the chunks \<open>renderToReadableStream\<close> yields for it.  JavaScript does not enforce the declared
  type, so a renderer may also return \<open>null\<close> or any other value.
\<close>

datatype render_result =
    Text "nat list"
  | Bytes "byte list"
  | Stream "byte list list"
  | Markup "byte list list"
  | Null
  | Other

text \<open>A renderer is a function of no arguments, or the closure \<open>moduleRenderer\<close> builds for a
  module path, which imports the module on every call.\<close>

datatype renderer = Direct "unit \<Rightarrow> render_result" | Module string

definition moduleRenderer :: "string \<Rightarrow> renderer" where
  "moduleRenderer modulePath = Module modulePath"

fun invoke :: "(string \<Rightarrow> render_result) \<Rightarrow> renderer \<Rightarrow> render_result" where
  "invoke importModule (Direct f) = f ()"
| "invoke importModule (Module modulePath) = importModule modulePath"

definition ascii :: "string \<Rightarrow> nat list" where
  "ascii s = map of_char s"

text \<open>A renderer that returns a fixed text.\<close>

definition textRenderer :: "string \<Rightarrow> renderer" where
  "textRenderer s = Direct (\<lambda>u. Text (ascii s))"

text \<open>\<open>isObjectJsxElement\<close>: the \<open>in\<close> operator raises a \<open>TypeError\<close> on \<open>null\<close>, whose \<open>typeof\<close> is
  \<open>object\<close>.\<close>

fun isObjectJsxElement :: "render_result \<Rightarrow> error + bool" where
  "isObjectJsxElement (Markup chunks) = Inr True"
| "isObjectJsxElement Null = Inl TypeError"
| "isObjectJsxElement r = Inr False"

definition toResponseBody :: "render_result \<Rightarrow> error + render_result" where
  "toResponseBody renderResult =
     (case isObjectJsxElement renderResult of
        Inl e \<Rightarrow> Inl e
      | Inr True \<Rightarrow> (case renderResult of Markup chunks \<Rightarrow> Inr (Stream chunks) | r \<Rightarrow> Inr r)
      | Inr False \<Rightarrow> Inr renderResult)"

section \<open>SiteGenerator\<close>

record site_generator =
  routes :: "(string \<times> renderer) list"
  staticMappings :: "(string \<times> string) list"
  indexFilename :: string
  notFoundFilename :: string

definition newSiteGenerator :: site_generator where
  "newSiteGenerator =
     \<lparr>routes = [], staticMappings = [], indexFilename = ''index.html'',
      notFoundFilename = ''404.html''\<rparr>"

definition setIndexFilename :: "string \<Rightarrow> site_generator \<Rightarrow> site_generator" where
  "setIndexFilename filename g = g\<lparr>indexFilename := filename\<rparr>"

definition setNotFoundFilename :: "string \<Rightarrow> site_generator \<Rightarrow> site_generator" where
  "setNotFoundFilename filename g = g\<lparr>notFoundFilename := filename\<rparr>"

text \<open>The second argument of \<open>setRoute\<close> and \<open>setNotFound\<close> is a renderer (\<open>Inl\<close>) or a module
  path (\<open>Inr\<close>).\<close>

definition setRoute :: "string \<Rightarrow> renderer + string \<Rightarrow> site_generator \<Rightarrow> site_generator" where
  "setRoute route r g =
     (case r of
        Inr modulePath \<Rightarrow> g\<lparr>routes := map_set route (moduleRenderer modulePath) (routes g)\<rparr>
      | Inl renderer \<Rightarrow> g\<lparr>routes := map_set route renderer (routes g)\<rparr>)"

text \<open>\<open>mapStatic\<close> returns the error it raises, if any, and the generator after the call.\<close>

definition mapStatic :: "string \<Rightarrow> string \<Rightarrow> site_generator \<Rightarrow> error option \<times> site_generator" where
  "mapStatic route directory g =
     (if \<not> startsWith route ''/'' then
        (Some (Error ''Static routes must begin with an initial slash (using \"/ is valid for root)''), g)
      else if \<not> endsWith route ''/'' then
        (Some (Error ''Static routes must end with a trailing slash (using \"/\" is valid for root)''), g)
      else (None, g\<lparr>staticMappings := map_set route directory (staticMappings g)\<rparr>))"

definition setNotFound :: "renderer + string \<Rightarrow> site_generator \<Rightarrow> site_generator" where
  "setNotFound r g =
     (let route = ''/'' @ notFoundFilename g in
      case r of
        Inr modulePath \<Rightarrow> g\<lparr>routes := map_set route (moduleRenderer modulePath) (routes g)\<rparr>
      | Inl renderer \<Rightarrow> g\<lparr>routes := map_set route renderer (routes g)\<rparr>)"

section \<open>The request handler\<close>

datatype body = Value render_result | FileBody string

record response =
  status :: nat
  body :: body

definition requestPath :: "string \<Rightarrow> string" where
  "requestPath url =
     (case indexOf url (CHR ''/'') 8 of
        None \<Rightarrow> substringFrom url 0
      | Some i \<Rightarrow> substringFrom url i)"

definition routeCandidates :: "string \<Rightarrow> string \<Rightarrow> string list" where
  "routeCandidates indexName path =
     [path, path @ ''/''] @
     (if endsWith path (''/'' @ indexName)
      then [substring path 0 (length path - length indexName)] else [])"

fun findRenderer :: "(string \<times> renderer) list \<Rightarrow> string list \<Rightarrow> renderer option" where
  "findRenderer rs [] = None"
| "findRenderer rs (route # rest) =
     (case map_get rs route of
        Some renderer \<Rightarrow> Some renderer
      | None \<Rightarrow> findRenderer rs rest)"

text \<open>\<open>dirPath.replace(/\/\.{2,}/g, '')\<close>: every slash that is followed by two or more dots is
  deleted together with all the dots after it.\<close>

function stripDotSegments :: "string \<Rightarrow> string" where
  "stripDotSegments [] = []"
| "stripDotSegments (c # cs) =
     (if c = CHR ''/'' \<and> 2 \<le> length (takeWhile (\<lambda>d. d = CHR ''.'') cs)
      then stripDotSegments (dropWhile (\<lambda>d. d = CHR ''.'') cs)
      else c # stripDotSegments cs)"
  by pat_completeness auto
termination
  by (relation "measure length") (auto simp: length_dropWhile_le less_Suc_eq_le)

definition sanitize :: "string \<Rightarrow> string \<Rightarrow> string" where
  "sanitize route path =
     (let dirPath = substringFrom path (length route);
          dirPath = (if \<not> startsWith dirPath ''/'' then ''/'' @ dirPath else dirPath)
      in stripDotSegments dirPath)"

text \<open>A slash that is followed by two or more dots occurs in the string.\<close>

fun hasDotDot :: "string \<Rightarrow> bool" where
  "hasDotDot [] = False"
| "hasDotDot (c # cs) =
     ((c = CHR ''/'' \<and> 2 \<le> length (takeWhile (\<lambda>d. d = CHR ''.'') cs)) \<or> hasDotDot cs)"

text \<open>The loop over the static mappings: the path of the file to serve, if any.\<close>

fun serveStatic :: "world \<Rightarrow> string \<Rightarrow> (string \<times> string) list \<Rightarrow> error + string option" where
  "serveStatic w path [] = Inr None"
| "serveStatic w path ((route, staticDir) # rest) =
     (if startsWith path route then
        (let filePath = joinPaths staticDir (sanitize route path) in
         case stat w filePath of
           Inr fileInfo \<Rightarrow>
             if \<not> isFile fileInfo then serveStatic w path rest else Inr (Some filePath)
         | Inl err \<Rightarrow>
             if err = SystemError ENOENT then serveStatic w path rest else Inl err)
      else serveStatic w path rest)"

definition noRouteText :: "nat list" where
  "noRouteText = ascii ''No route was found, and no 404 page was found either''"

definition respond :: "nat \<Rightarrow> error + render_result \<Rightarrow> error + response" where
  "respond code b =
     (case b of Inl e \<Rightarrow> Inl e | Inr v \<Rightarrow> Inr \<lparr>status = code, body = Value v\<rparr>)"

text \<open>The first part of \<open>reqHandler\<close>: the candidate routes are tried in order against the
  route table.\<close>

definition matchRoute :: "site_generator \<Rightarrow> string \<Rightarrow> renderer option" where
  "matchRoute g path = findRenderer (routes g) (routeCandidates (indexFilename g) path)"

definition handlePath ::
  "(string \<Rightarrow> render_result) \<Rightarrow> site_generator \<Rightarrow> world \<Rightarrow> string \<Rightarrow> error + response" where
  "handlePath importModule g w path =
     (case matchRoute g path of
        None \<Rightarrow>
          (case serveStatic w path (staticMappings g) of
             Inl err \<Rightarrow> Inl err
           | Inr (Some filePath) \<Rightarrow> Inr \<lparr>status = 200, body = FileBody filePath\<rparr>
           | Inr None \<Rightarrow>
               (case map_get (routes g) (''/'' @ notFoundFilename g) of
                  None \<Rightarrow> Inr \<lparr>status = 404, body = Value (Text noRouteText)\<rparr>
                | Some notFoundRenderer \<Rightarrow>
                    respond 404 (toResponseBody (invoke importModule notFoundRenderer))))
      | Some renderer \<Rightarrow> respond 200 (toResponseBody (invoke importModule renderer)))"

definition reqHandler ::
  "(string \<Rightarrow> render_result) \<Rightarrow> site_generator \<Rightarrow> world \<Rightarrow> string \<Rightarrow> error + response" where
  "reqHandler importModule g w url = handlePath importModule g w (requestPath url)"

text \<open>The request matches no static file: under every mapping whose prefix the path begins
  with, the sanitised file path is missing or is not a regular file.\<close>

definition noStaticFile :: "world \<Rightarrow> site_generator \<Rightarrow> string \<Rightarrow> bool" where
  "noStaticFile w g path =
     list_all
       (\<lambda>(route, staticDir).
          startsWith path route \<longrightarrow>
            stat w (joinPaths staticDir (sanitize route path)) = Inl (SystemError ENOENT)
            \<or> stat w (joinPaths staticDir (sanitize route path)) = Inr Dir)
       (staticMappings g)"

section \<open>Text encoding\<close>

text \<open>
  \<open>streamDecoder.decode(chunk)\<close> decodes one chunk with the platform's UTF-8 decoder: every
  malformed or truncated sequence becomes U+FFFD, the decoder starts afresh on each call
  (the \<open>stream\<close> option is not given), and a byte order mark at the start of the output is
  dropped.
\<close>

text \<open>What the first byte of a sequence announces: a character of its own, the number of
  continuation bytes with the bits collected so far and the bounds for the next byte, or an
  error.\<close>

datatype lead = Single nat | Lead nat nat nat nat | Invalid

definition classify :: "nat \<Rightarrow> lead" where
  "classify v =
     (if v \<le> 127 then Single v
      else if 194 \<le> v \<and> v \<le> 223 then Lead 1 (v mod 32) 128 191
      else if 224 \<le> v \<and> v \<le> 239 then
        Lead 2 (v mod 16) (if v = 224 then 160 else 128) (if v = 237 then 159 else 191)
      else if 240 \<le> v \<and> v \<le> 244 then
        Lead 3 (v mod 8) (if v = 240 then 144 else 128) (if v = 244 then 143 else 191)
      else Invalid)"

text \<open>\<open>utf8Decode needed cp lo hi\<close> is the decoder's state: the number of continuation
  bytes still needed, the code point collected so far, and the bounds for the next byte.
  A byte that does not continue the sequence ends it with an error and is read again as a
  first byte.\<close>

fun utf8Decode :: "nat \<Rightarrow> nat \<Rightarrow> nat \<Rightarrow> nat \<Rightarrow> byte list \<Rightarrow> nat list" where
  "utf8Decode needed cp lo hi [] = (if needed \<noteq> 0 then [65533] else [])"
| "utf8Decode needed cp lo hi (b # bs) =
     (if needed \<noteq> 0 \<and> lo \<le> unat b \<and> unat b \<le> hi then
        (if needed = 1 then (cp * 64 + unat b mod 64) # utf8Decode 0 0 128 191 bs
         else utf8Decode (needed - 1) (cp * 64 + unat b mod 64) 128 191 bs)
      else
        (if needed \<noteq> 0 then [65533] else []) @
        (case classify (unat b) of
           Single v \<Rightarrow> v # utf8Decode 0 0 128 191 bs
         | Lead n c l h \<Rightarrow> utf8Decode n c l h bs
         | Invalid \<Rightarrow> 65533 # utf8Decode 0 0 128 191 bs))"

definition decode :: "byte list \<Rightarrow> nat list" where
  "decode chunk =
     (let out = utf8Decode 0 0 128 191 chunk
      in case out of [] \<Rightarrow> [] | c # rest \<Rightarrow> if c = 65279 then rest else out)"

text \<open>Writing a string writes its UTF-8 encoding; a lone surrogate is written as U+FFFD.\<close>

definition encodeCodePoint :: "nat \<Rightarrow> byte list" where
  "encodeCodePoint c =
     (if c < 128 then [of_nat c]
      else if c < 2048 then [of_nat (192 + c div 64), of_nat (128 + c mod 64)]
      else if (55296 \<le> c \<and> c \<le> 57343) \<or> 1114111 < c then [239, 191, 189]
      else if c < 65536 then
        [of_nat (224 + c div 4096), of_nat (128 + c div 64 mod 64), of_nat (128 + c mod 64)]
      else
        [of_nat (240 + c div 262144), of_nat (128 + c div 4096 mod 64),
         of_nat (128 + c div 64 mod 64), of_nat (128 + c mod 64)])"

definition utf8Encode :: "nat list \<Rightarrow> byte list" where
  "utf8Encode s = concat (map encodeCodePoint s)"

text \<open>\<open>renderToString\<close> and the stream branch of \<open>build\<close> run the same loop:
  \<open>res += streamDecoder.decode(chunk)\<close> for every chunk.\<close>

definition decodeChunks :: "byte list list \<Rightarrow> nat list" where
  "decodeChunks chunks = foldl (\<lambda>res chunk. res @ decode chunk) [] chunks"

definition renderToString :: "byte list list \<Rightarrow> nat list" where
  "renderToString element = decodeChunks element"

text \<open>What \<open>build\<close> makes of a render result: a string or a byte array, or the error it
  throws.\<close>

datatype buffer = StringData "nat list" | ByteData "byte list"

definition invalidRenderResult :: error where
  "invalidRenderResult =
     Error ''Invalid render result. Must be one of the following types: string, Uint8Array, ReadableStream, or JSX.Element.''"

definition buildResult :: "render_result \<Rightarrow> error + buffer" where
  "buildResult render =
     (case render of
        Text s \<Rightarrow> Inr (StringData s)
      | _ \<Rightarrow>
          (case isObjectJsxElement render of
             Inl e \<Rightarrow> Inl e
           | Inr True \<Rightarrow>
               (case render of
                  Markup element \<Rightarrow> Inr (StringData (renderToString element))
                | _ \<Rightarrow> Inl invalidRenderResult)
           | Inr False \<Rightarrow>
               (case render of
                  Stream chunks \<Rightarrow> Inr (StringData (decodeChunks chunks))
                | Bytes b \<Rightarrow> Inr (ByteData b)
                | _ \<Rightarrow> Inl invalidRenderResult)))"

fun bufferBytes :: "buffer \<Rightarrow> byte list" where
  "bufferBytes (StringData s) = utf8Encode s"
| "bufferBytes (ByteData b) = b"

section \<open>File system operations\<close>

definition exists :: "world \<Rightarrow> string \<Rightarrow> bool" where
  "exists w path = (case stat w path of Inl e \<Rightarrow> False | Inr n \<Rightarrow> True)"

text \<open>\<open>mkdir\<close> with \<open>recursive: true\<close> creates the missing directories along the path.\<close>

fun mkdirFrom ::
  "(string list \<times> node) list \<Rightarrow> string list \<Rightarrow> string list \<Rightarrow> errno + (string list \<times> node) list" where
  "mkdirFrom fs dir [] = Inr fs"
| "mkdirFrom fs dir (s # rest) =
     (case map_of fs (dir @ [s]) of
        None \<Rightarrow> mkdirFrom ((dir @ [s], Dir) # fs) (dir @ [s]) rest
      | Some Dir \<Rightarrow> mkdirFrom fs (dir @ [s]) rest
      | Some (File c) \<Rightarrow> Inl (if rest = [] then EEXIST else ENOTDIR))"

definition mkdirRecursive :: "world \<Rightarrow> string \<Rightarrow> error + world" where
  "mkdirRecursive w path =
     (if path = [] then Inl (SystemError ENOENT)
      else
        (case mkdirFrom (files w) [] (resolvePath w path) of
           Inl e \<Rightarrow> Inl (SystemError e)
         | Inr fs \<Rightarrow> Inr (w\<lparr>files := fs\<rparr>)))"

text \<open>\<open>mkdir\<close> without options needs the parent directory and fails on a path that exists.\<close>

definition mkdir :: "world \<Rightarrow> string \<Rightarrow> error + world" where
  "mkdir w path =
     (let p = resolvePath w path in
      if path = [] then Inl (SystemError ENOENT)
      else if p = [] then Inl (SystemError EEXIST)
      else
        (case lookupFrom (files w) [] (butlast p) of
           Inl e \<Rightarrow> Inl (SystemError e)
         | Inr (File c) \<Rightarrow> Inl (SystemError ENOTDIR)
         | Inr Dir \<Rightarrow>
             (case map_of (files w) p of
                None \<Rightarrow> Inr (w\<lparr>files := (p, Dir) # files w\<rparr>)
              | Some n \<Rightarrow> Inl (SystemError EEXIST))))"

text \<open>\<open>Bun.write(path, data)\<close> creates the parent directories and replaces a file that is
  there; it cannot write to a directory.\<close>

definition writeFile :: "world \<Rightarrow> string \<Rightarrow> byte list \<Rightarrow> error + world" where
  "writeFile w path content =
     (let p = resolvePath w path in
      if path = [] then Inl (SystemError ENOENT)
      else if p = [] \<or> endsWith path ''/'' then Inl (SystemError EISDIR)
      else
        (case mkdirFrom (files w) [] (butlast p) of
           Inl e \<Rightarrow> Inl (SystemError ENOTDIR)
         | Inr fs \<Rightarrow>
             (case map_of fs p of
                Some Dir \<Rightarrow> Inl (SystemError EISDIR)
              | _ \<Rightarrow>
                  Inr (w\<lparr>files := (p, File content) # filter (\<lambda>entry. fst entry \<noteq> p) fs\<rparr>))))"

text \<open>\<open>Bun.write(target, Bun.file(source))\<close>.\<close>

definition copyFile :: "world \<Rightarrow> string \<Rightarrow> string \<Rightarrow> error + world" where
  "copyFile w source target =
     (case stat w source of
        Inl e \<Rightarrow> Inl e
      | Inr Dir \<Rightarrow> Inl (SystemError EISDIR)
      | Inr (File content) \<Rightarrow> writeFile w target content)"

definition readdir :: "world \<Rightarrow> string \<Rightarrow> error + string list" where
  "readdir w path =
     (case stat w path of
        Inl e \<Rightarrow> Inl e
      | Inr (File c) \<Rightarrow> Inl (SystemError ENOTDIR)
      | Inr Dir \<Rightarrow>
          Inr (remdups
                 (map (\<lambda>entry. last (fst entry))
                    (filter (\<lambda>entry. fst entry \<noteq> [] \<and> butlast (fst entry) = resolvePath w path)
                       (files w)))))"

text \<open>\<open>rm\<close> with \<open>recursive\<close> and \<open>force\<close> removes the node and everything below it, and does
  nothing for a path that is not there.\<close>

definition rm :: "world \<Rightarrow> string \<Rightarrow> world" where
  "rm w path =
     (let p = resolvePath w path
      in if path = [] then w
         else w\<lparr>files := filter (\<lambda>entry. take (length p) (fst entry) \<noteq> p) (files w)\<rparr>)"

definition consoleLog :: "world \<Rightarrow> string \<Rightarrow> world" where
  "consoleLog w line = w\<lparr>console := console w @ [line]\<rparr>"

section \<open>copyRecursive\<close>

text \<open>
  The inner loop over the entries of one directory: directories are created in the target
  and queued, files are copied.  The result is the first error, or the queue and the world
  after the loop.
\<close>

fun copyChildren ::
  "string \<Rightarrow> string \<Rightarrow> string \<Rightarrow> string list \<Rightarrow> string list \<Rightarrow> world
     \<Rightarrow> error option \<times> string list \<times> world" where
  "copyChildren source target path [] paths w = (None, paths, w)"
| "copyChildren source target path (file # rest) paths w =
     (let childPath = joinPaths path file;
          realPath = joinPaths source childPath;
          targetPath = joinPaths target childPath
      in case stat w realPath of
           Inl e \<Rightarrow> (Some e, paths, w)
         | Inr info \<Rightarrow>
             if isDirectory info then
               (case mkdir w targetPath of
                  Inl e \<Rightarrow> (Some e, paths, w)
                | Inr w' \<Rightarrow> copyChildren source target path rest (paths @ [childPath]) w')
             else
               (case copyFile w realPath targetPath of
                  Inl e \<Rightarrow> (Some e, paths, w)
                | Inr w' \<Rightarrow> copyChildren source target path rest paths w'))"

text \<open>
  The \<open>while\<close> loop over the queue of directories.  It need not end (the target may lie
  inside the source), so it runs on fuel: one unit per directory taken from the queue, and
  \<open>None\<close> when the fuel is used up before the queue is empty.
\<close>

fun copyLoop ::
  "nat \<Rightarrow> string \<Rightarrow> string \<Rightarrow> string list \<Rightarrow> world \<Rightarrow> (error option \<times> world) option" where
  "copyLoop fuel source target [] w = Some (None, w)"
| "copyLoop 0 source target (path # paths) w = None"
| "copyLoop (Suc fuel) source target (path # paths) w =
     (case readdir w (joinPaths source path) of
        Inl e \<Rightarrow> Some (Some e, w)
      | Inr entries \<Rightarrow>
          (case copyChildren source target path entries paths w of
             (Some e, paths', w') \<Rightarrow> Some (Some e, w')
           | (None, paths', w') \<Rightarrow> copyLoop fuel source target paths' w'))"

definition copyRecursive ::
  "nat \<Rightarrow> string \<Rightarrow> string \<Rightarrow> world \<Rightarrow> (error option \<times> world) option" where
  "copyRecursive fuel source target w =
     (case stat w source of
        Inl e \<Rightarrow> Some (Some e, w)
      | Inr info \<Rightarrow>
          if \<not> isDirectory info then
            (case copyFile w source target of
               Inl e \<Rightarrow> Some (Some e, w)
             | Inr w' \<Rightarrow> Some (None, w'))
          else
            (case stat w target of
               Inl err \<Rightarrow>
                 if err = SystemError ENOENT then
                   (case mkdirRecursive w target of
                      Inl e \<Rightarrow> Some (Some e, w)
                    | Inr w' \<Rightarrow> copyLoop fuel source target [[]] w')
                 else Some (Some err, w)
             | Inr targetStat \<Rightarrow>
                 if \<not> isDirectory targetStat then
                   Some (Some (Error (''Cannot copy from source '' @ source
                                        @ '' to non-directory target '' @ target)), w)
                 else copyLoop fuel source target [[]] w))"

section \<open>build\<close>

text \<open>The first part of \<open>build\<close>: the output directory is emptied or created.\<close>

definition prepareOutDir :: "string \<Rightarrow> bool \<Rightarrow> world \<Rightarrow> error + world" where
  "prepareOutDir outDir clearOutDir w =
     (if exists w outDir then
        (if clearOutDir then
           (case readdir w outDir of
              Inl e \<Rightarrow> Inl e
            | Inr entries \<Rightarrow> Inr (foldl (\<lambda>w' file. rm w' (joinPaths outDir file)) w entries))
         else Inr w)
      else mkdirRecursive w outDir)"

definition mappingLine :: "string \<times> string \<Rightarrow> string" where
  "mappingLine m = ''Mapping '' @ snd m @ '' to '' @ fst m @ ''...''"

text \<open>The loop over the static mappings.\<close>

fun buildStatic ::
  "nat \<Rightarrow> string \<Rightarrow> (string \<times> string) list \<Rightarrow> world \<Rightarrow> (error option \<times> world) option" where
  "buildStatic fuel outDir [] w = Some (None, w)"
| "buildStatic fuel outDir ((route, staticDir) # rest) w =
     (let copyDir = joinPaths outDir route
      in case copyRecursive fuel staticDir copyDir (consoleLog w (mappingLine (route, staticDir))) of
           None \<Rightarrow> None
         | Some (Some e, w') \<Rightarrow> Some (Some e, w')
         | Some (None, w') \<Rightarrow> buildStatic fuel outDir rest w')"

definition outFileName :: "string \<Rightarrow> string \<Rightarrow> string \<Rightarrow> string" where
  "outFileName indexName outDir route =
     (let outFile = joinPaths outDir route
      in if endsWith outFile ''/'' then outFile @ indexName else outFile)"

definition renderingLine :: "string \<Rightarrow> string" where
  "renderingLine outFile = ''Rendering '' @ outFile @ ''...''"

text \<open>The loop over the routes.\<close>

fun buildRoutes ::
  "(string \<Rightarrow> render_result) \<Rightarrow> string \<Rightarrow> string \<Rightarrow> (string \<times> renderer) list \<Rightarrow> world
     \<Rightarrow> error option \<times> world" where
  "buildRoutes importModule indexName outDir [] w = (None, w)"
| "buildRoutes importModule indexName outDir ((route, renderer) # rest) w =
     (case buildResult (invoke importModule renderer) of
        Inl e \<Rightarrow> (Some e, w)
      | Inr res \<Rightarrow>
          (let outFile = outFileName indexName outDir route;
               w1 = consoleLog w (renderingLine outFile)
           in case mkdirRecursive w1 (dirname outFile) of
                Inl e \<Rightarrow> (Some e, w1)
              | Inr w2 \<Rightarrow>
                  (case writeFile w2 outFile (bufferBytes res) of
                     Inl e \<Rightarrow> (Some e, w2)
                   | Inr w3 \<Rightarrow> buildRoutes importModule indexName outDir rest w3)))"

definition doneLine :: "string \<Rightarrow> string" where
  "doneLine outDir = ''Done. Rendered site is available in '' @ [CHR 0x27] @ outDir @ [CHR 0x27] @ ''.''"

text \<open>\<open>build\<close> returns the error it throws, if any, and the world it leaves; \<open>None\<close> when a
  copy does not end within the fuel.\<close>

definition build ::
  "nat \<Rightarrow> (string \<Rightarrow> render_result) \<Rightarrow> site_generator \<Rightarrow> string \<Rightarrow> bool \<Rightarrow> world
     \<Rightarrow> (error option \<times> world) option" where
  "build fuel importModule g outDir clearOutDir w =
     (case prepareOutDir outDir clearOutDir w of
        Inl e \<Rightarrow> Some (Some e, w)
      | Inr w1 \<Rightarrow>
          (case buildStatic fuel outDir (staticMappings g) w1 of
             None \<Rightarrow> None
           | Some (Some e, w2) \<Rightarrow> Some (Some e, w2)
           | Some (None, w2) \<Rightarrow>
               (case buildRoutes importModule (indexFilename g) outDir (routes g) w2 of
                  (Some e, w3) \<Rightarrow> (Some (Some e, w3))
                | (None, w3) \<Rightarrow> Some (None, consoleLog w3 (doneLine outDir)))))"

section \<open>Example sites\<close>

definition emptyWorld :: world where
  "emptyWorld = \<lparr>files = [], cwd = [], console = []\<rparr>"

definition noModules :: "string \<Rightarrow> render_result" where
  "noModules modulePath = Other"

definition todoSite :: site_generator where
  "todoSite =
     setRoute ''/todo'' (Inr ''./pages/todo'')
       (setRoute ''/hi/'' (Inr ''./pages/hi'') newSiteGenerator)"

definition indexSite :: site_generator where
  "indexSite =
     setRoute ''/foo/index.html'' (Inr ''./pages/other'')
       (setRoute ''/foo/'' (Inr ''./pages/foo'') newSiteGenerator)"

definition assetSite :: site_generator where
  "assetSite = snd (mapStatic ''/assets/'' ''./site-assets'' todoSite)"

definition missingSite :: site_generator where
  "missingSite = setNotFound (Inl (textRenderer ''missing'')) assetSite"

text \<open>Sites whose not-found renderer returns an element, and \<open>null\<close>.\<close>

definition markupSite :: site_generator where
  "markupSite = setNotFound (Inl (Direct (\<lambda>u. Markup [[0x3C, 0x70], [0x3E]]))) assetSite"

definition nullSite :: site_generator where
  "nullSite = setNotFound (Inl (Direct (\<lambda>u. Null))) assetSite"

text \<open>A world whose static directory holds the regular file \<open>file.txt\<close>.\<close>

definition fileWorld :: world where
  "fileWorld =
     \<lparr>files = [([''srv'', ''site-assets'', ''file.txt''], File (utf8Encode (ascii ''hi''))),
               ([''srv'', ''site-assets''], Dir), ([''srv''], Dir)],
      cwd = [''srv''], console = []\<rparr>"

definition customSite :: site_generator where
  "customSite =
     setNotFoundFilename ''missing.html''
       (setNotFound (Inl (textRenderer ''missing''))
          (setRoute ''/missing.html'' (Inl (textRenderer ''custom'')) newSiteGenerator))"

text \<open>A site that maps the root to the empty directory string, in a world with a file outside
  the working directory.\<close>

definition passwdWorld :: world where
  "passwdWorld =
     \<lparr>files = [([''etc'', ''passwd''], File (utf8Encode (ascii ''root''))), ([''etc''], Dir),
               ([''srv'', ''site''], Dir), ([''srv''], Dir)],
      cwd = [''srv'', ''site''], console = []\<rparr>"

definition rootMappedSite :: site_generator where
  "rootMappedSite = snd (mapStatic ''/'' [] newSiteGenerator)"

text \<open>A renderer whose stream delivers the two bytes of one character in two chunks.\<close>

definition splitSite :: site_generator where
  "splitSite = setRoute ''/'' (Inl (Direct (\<lambda>u. Stream [[0xC3], [0xA9]]))) newSiteGenerator"






text \<open>A site with the pages \<open>/\<close> and \<open>/sub/\<close>, built into a directory that holds an old file.\<close>

definition abSite :: site_generator where
  "abSite =
     setRoute ''/sub/'' (Inl (textRenderer ''B'')) (setRoute ''/'' (Inl (textRenderer ''A'')) newSiteGenerator)"

definition staleWorld :: world where
  "staleWorld =
     \<lparr>files = [([''out'', ''old.html''], File (utf8Encode (ascii ''old''))), ([''out''], Dir)],
      cwd = [], console = []\<rparr>"

definition abPrepared :: world where
  "abPrepared = (case prepareOutDir ''out'' True staleWorld of Inr w1 \<Rightarrow> w1 | Inl e \<Rightarrow> staleWorld)"

definition abBuilt :: world where
  "abBuilt = snd (buildRoutes noModules ''index.html'' ''out'' (routes abSite) abPrepared)"

text \<open>A site with a page under the empty route key.\<close>

definition emptyKeySite :: site_generator where
  "emptyKeySite = setRoute [] (Inl (textRenderer ''A'')) newSiteGenerator"

text \<open>The worlds after building the site with the empty route key into \<open>out/\<close>, and the site
  with the split stream into \<open>out\<close>.\<close>

definition emptyKeyBuilt :: world where
  "emptyKeyBuilt =
     (case build 0 noModules emptyKeySite ''out/'' True emptyWorld of
        Some (e, w') \<Rightarrow> w'
      | None \<Rightarrow> emptyWorld)"

definition splitBuilt :: world where
  "splitBuilt =
     \<lparr>files = [([''out'', ''index.html''], File [0xEF, 0xBF, 0xBD, 0xEF, 0xBF, 0xBD]),
               ([''out''], Dir)],
      cwd = [], console = [renderingLine ''out/index.html'', doneLine ''out'']\<rparr>"

section \<open>Auxiliary notions\<close>

text \<open>Segments that normalisation keeps, and the shape of a normalised list of segments:
  no empty or \<open>.\<close> segment, and \<open>..\<close> only in a leading block of a relative path.\<close>

definition keepSegment :: "string \<Rightarrow> bool" where
  "keepSegment seg = (seg \<noteq> [] \<and> seg \<noteq> ''.'')"

definition normalStack :: "bool \<Rightarrow> string list \<Rightarrow> bool" where
  "normalStack allow st =
     ((\<forall>seg \<in> set st. seg \<noteq> [] \<and> seg \<noteq> ''.'')
      \<and> ''..'' \<notin> set (dropWhile (\<lambda>seg. seg = ''..'') st)
      \<and> (\<not> allow \<longrightarrow> ''..'' \<notin> set st))"

text \<open>Two worlds of one process: the same console output and working directory.\<close>

definition sameProcess :: "world \<Rightarrow> world \<Rightarrow> bool" where
  "sameProcess w w' = (console w' = console w \<and> cwd w' = cwd w)"

section \<open>Properties\<close>

subsection \<open>Strings, maps and parsed tokens\<close>

lemma indexOfAux_eq:
  "indexOfAux c xs i =
     (if c \<in> set xs then Some (i + length (takeWhile (\<lambda>x. x \<noteq> c) xs)) else None)"
  by (induction xs arbitrary: i) auto

lemma indexOf_zero:
  "indexOf s c 0 = (if c \<in> set s then Some (length (takeWhile (\<lambda>x. x \<noteq> c) s)) else None)"
  by (simp add: indexOf_def indexOfAux_eq)

lemma map_of_map_set: "map_of (map_set k v m) = (map_of m)(k \<mapsto> v)"
  by (induction m) (auto simp: fun_upd_twist)

lemma drop_length_takeWhile: "drop (length (takeWhile P xs)) xs = dropWhile P xs"
  by (induction xs) auto

lemma take_length_takeWhile: "take (length (takeWhile P xs)) xs = takeWhile P xs"
  by (induction xs) auto

lemma parse_arg_spec:
  "parse_arg arg (a, opts) =
     (if spec_is_option arg
      then (a, map_set (fst (spec_option arg)) (snd (spec_option arg)) opts)
      else (a @ [arg], opts))"
proof (cases "spec_is_option arg")
  case False
  then show ?thesis by (simp add: parse_arg_def spec_is_option_def startsWith_def numeral_2_eq_2)
next
  case True
  then obtain rest where arg: "arg = CHR ''-'' # CHR ''-'' # rest"
    by (cases arg; cases "tl arg") (auto simp: spec_is_option_def)
  show ?thesis
  proof (cases "CHR ''='' \<in> set rest")
    case False
    then have "takeWhile (\<lambda>c. c \<noteq> CHR ''='') rest = rest"
      by (induction rest) auto
    with False show ?thesis
      using True by (simp add: parse_arg_def arg startsWith_def indexOf_zero spec_option_def
          substringFrom_def spec_is_option_def numeral_2_eq_2 takeWhile_eq_all_conv [THEN iffD2])
  next
    case in_rest: True
    have "substring arg 2 (length (takeWhile (\<lambda>x. x \<noteq> CHR ''='') arg))
            = takeWhile (\<lambda>c. c \<noteq> CHR ''='') (drop 2 arg)"
      by (simp add: arg substring_def take_length_takeWhile)
    moreover have "substringFrom arg (length (takeWhile (\<lambda>x. x \<noteq> CHR ''='') arg) + 1)
            = tl (dropWhile (\<lambda>c. c \<noteq> CHR ''='') arg)"
      by (simp add: substringFrom_def drop_Suc drop_length_takeWhile flip: drop_tl tl_drop)
    ultimately show ?thesis
      using True in_rest
      by (simp add: parse_arg_def startsWith_def indexOf_zero spec_option_def
          spec_is_option_def arg)
  qed
qed

lemma parse_loop_args:
  "fst (foldl (\<lambda>st arg. parse_arg arg st) (a, opts) toks)
     = a @ filter (\<lambda>t. \<not> spec_is_option t) toks"
  by (induction toks arbitrary: a opts) (simp_all add: parse_arg_spec)

lemma parse_loop_options:
  "map_of (snd (foldl (\<lambda>st arg. parse_arg arg st) (a, opts) toks))
     = map_of (rev (map spec_option (filter spec_is_option toks)) @ opts)"
proof (induction toks arbitrary: a opts)
  case Nil
  then show ?case by simp
next
  case (Cons t toks)
  show ?case
  proof (cases "spec_is_option t")
    case False
    then show ?thesis by (simp add: parse_arg_spec Cons.IH)
  next
    case True
    then show ?thesis
      by (cases "spec_option t") (simp add: parse_arg_spec Cons.IH map_of_map_set map_add_def
          fun_eq_iff split: option.splits)
  qed
qed

subsection \<open>Route resolution\<close>

lemma map_get_map_set:
  "map_get (map_set k v m) k' = (if k' = k then Some v else map_get m k')"
  by (induction m) (auto simp: map_get_def)

lemma endsWith_append [simp]: "endsWith (s @ p) p"
  by (simp add: endsWith_def)

lemma endsWith_snoc: "endsWith s [c] \<longleftrightarrow> s \<noteq> [] \<and> last s = c"
  by (cases s rule: rev_cases) (auto simp: endsWith_def)

lemma matchRoute_unfold:
  "matchRoute g path =
     (case map_get (routes g) path of
        Some r \<Rightarrow> Some r
      | None \<Rightarrow>
          (case map_get (routes g) (path @ ''/'') of
             Some r \<Rightarrow> Some r
           | None \<Rightarrow>
               if endsWith path (''/'' @ indexFilename g)
               then map_get (routes g) (take (length path - length (indexFilename g)) path)
               else None))"
  by (simp add: matchRoute_def routeCandidates_def substring_def split: option.splits)

lemma key_not_candidate:
  assumes "\<not> endsWith K ''/''"
  shows "K \<notin> set (routeCandidates idx (K @ ''/''))"
proof -
  have "take (Suc (length K) - length idx) (K @ ''/'') \<noteq> K"
    if e: "endsWith (K @ ''/'') (''/'' @ idx)"
  proof
    assume t: "take (Suc (length K) - length idx) (K @ ''/'') = K"
    from e have le: "length idx \<le> length K"
      by (simp add: endsWith_def)
    from t have "length (take (Suc (length K) - length idx) (K @ ''/'')) = length K"
      by simp
    with le have "length idx = 1"
      by simp
    then obtain c where idx: "idx = [c]"
      by (cases idx) auto
    from e le have "drop (length K - 1) (K @ ''/'') = [CHR ''/'', c]"
      by (simp add: endsWith_def idx)
    moreover from le idx have "K \<noteq> []"
      by auto
    ultimately have "last K = CHR ''/''"
      by (cases K rule: rev_cases) auto
    with \<open>K \<noteq> []\<close> assms show False
      by (simp add: endsWith_snoc)
  qed
  then show ?thesis
    by (auto simp: routeCandidates_def substring_def)
qed

lemmas eval_defs =
  setRoute_def setNotFound_def setNotFoundFilename_def setIndexFilename_def newSiteGenerator_def
  moduleRenderer_def matchRoute_def routeCandidates_def endsWith_def startsWith_def
  map_get_def substring_def substringFrom_def requestPath_def indexOf_def reqHandler_def
  handlePath_def respond_def toResponseBody_def emptyWorld_def noModules_def textRenderer_def

lemma routeCandidates_index:
  assumes "endsWith K ''/''"
  shows "routeCandidates idx (K @ idx) = [K @ idx, K @ idx @ ''/'', K]"
proof -
  from assms obtain K' where K: "K = K' @ ''/''"
    by (cases K rule: rev_cases) (auto simp: endsWith_snoc)
  have "endsWith (K @ idx) (''/'' @ idx)"
    by (simp add: K endsWith_def)
  then show ?thesis
    by (simp add: routeCandidates_def substring_def)
qed

text \<open>
  Claim C1, as amended.  A request for the key \<open>K\<close> of a registered route resolves to that
  route's renderer and is answered with status 200.  A request for \<open>K\<close> followed by a slash
  resolves to the route registered at exactly that path when there is one; when \<open>K\<close> does
  not end in a slash, \<open>K\<close> itself is not among the candidates tried for it.  The trailing
  slash is added to the request, never removed: a route registered at \<open>P\<close> followed by a
  slash also answers the request \<open>P\<close> when no route is registered at exactly \<open>P\<close>.
\<close>

theorem route_exact_and_trailing_slash:
  assumes "map_get (routes g) K = Some r"
  shows "matchRoute g K = Some r
    \<and> (requestPath url = K \<longrightarrow>
         reqHandler importModule g w url = respond 200 (toResponseBody (invoke importModule r)))
    \<and> (\<forall>r'. map_get (routes g) (K @ ''/'') = Some r' \<longrightarrow> matchRoute g (K @ ''/'') = Some r')
    \<and> (\<not> endsWith K ''/'' \<longrightarrow> K \<notin> set (routeCandidates (indexFilename g) (K @ ''/'')))
    \<and> (\<forall>P. K = P @ ''/'' \<and> map_get (routes g) P = None \<longrightarrow> matchRoute g P = Some r)"
proof -
  have exact: "matchRoute g K = Some r"
    using assms by (simp add: matchRoute_unfold)
  have handler: "reqHandler importModule g w url
      = respond 200 (toResponseBody (invoke importModule r))" if "requestPath url = K"
    using that exact by (simp add: reqHandler_def handlePath_def)
  have slash: "matchRoute g (K @ ''/'') = Some r'" if "map_get (routes g) (K @ ''/'') = Some r'" for r'
    using that by (simp add: matchRoute_unfold)
  have conv: "matchRoute g P = Some r" if "K = P @ ''/''" "map_get (routes g) P = None" for P
    using that assms by (simp add: matchRoute_unfold)
  show ?thesis
    using exact handler slash conv key_not_candidate by blast
qed

text \<open>The statement at the routes \<open>/todo\<close> and \<open>/hi/\<close>.\<close>

theorem route_exact_and_trailing_slash_witness:
  "map_get (routes todoSite) ''/todo'' = Some (Module ''./pages/todo'')
   \<and> matchRoute todoSite ''/todo'' = Some (Module ''./pages/todo'')
   \<and> requestPath ''http://localhost:3000/todo'' = ''/todo''
   \<and> reqHandler noModules todoSite emptyWorld ''http://localhost:3000/todo''
        = Inr \<lparr>status = 200, body = Value Other\<rparr>
   \<and> \<not> endsWith ''/todo'' ''/''
   \<and> ''/todo'' \<notin> set (routeCandidates (indexFilename todoSite) ''/todo/'')
   \<and> map_get (routes todoSite) ''/hi/'' = Some (Module ''./pages/hi'')
   \<and> map_get (routes todoSite) ''/hi'' = None
   \<and> matchRoute todoSite ''/hi'' = Some (Module ''./pages/hi'')"
proof -
  have a: "map_get (routes todoSite) ''/todo'' = Some (Module ''./pages/todo'')"
    by (simp add: todoSite_def eval_defs)
  have b: "map_get (routes todoSite) ''/hi/'' = Some (Module ''./pages/hi'')"
    by (simp add: todoSite_def eval_defs)
  have c: "requestPath ''http://localhost:3000/todo'' = ''/todo''"
    by (simp add: eval_defs)
  have d: "\<not> endsWith ''/todo'' ''/''" "map_get (routes todoSite) ''/hi'' = None"
    by (simp_all add: todoSite_def eval_defs)
  show ?thesis
    using route_exact_and_trailing_slash [OF a, of "''http://localhost:3000/todo''" noModules emptyWorld]
      route_exact_and_trailing_slash [OF b, of "''http://localhost:3000/hi/''" noModules emptyWorld]
      a b c d
    by (simp add: respond_def toResponseBody_def noModules_def)
qed

text \<open>
  Claim C1 as stated fails: with a route registered at \<open>/todo\<close> and none at \<open>/todo/\<close>, the
  request \<open>/todo/\<close> matches no route and is answered with the 404 diagnostic.
\<close>

theorem trailing_slash_counterexample:
  "map_get (routes todoSite) ''/todo'' = Some (Module ''./pages/todo'')
   \<and> \<not> endsWith ''/todo'' ''/''
   \<and> map_get (routes todoSite) (''/todo'' @ ''/'') = None
   \<and> matchRoute todoSite (''/todo'' @ ''/'') = None
   \<and> requestPath ''http://localhost:3000/todo/'' = ''/todo'' @ ''/''
   \<and> reqHandler noModules todoSite emptyWorld ''http://localhost:3000/todo/''
        = Inr \<lparr>status = 404, body = Value (Text noRouteText)\<rparr>"
  by (simp add: todoSite_def eval_defs)

text \<open>
  Claim C2, as amended.  For a route registered at a key \<open>K\<close> that ends in a slash, the
  candidates for the request \<open>K\<close> followed by the index filename are that path, that path
  with a slash, and \<open>K\<close> (the index filename is removed, the slash before it stays).  The
  request resolves to the renderer of \<open>K\<close> unless a route is registered at one of the first
  two candidates, which then takes precedence.  For every path the candidates are tried in
  this order and the first registered one wins.
\<close>

theorem index_suffix_resolution:
  assumes "map_get (routes g) K = Some r" and "endsWith K ''/''"
  shows "routeCandidates (indexFilename g) (K @ indexFilename g)
        = [K @ indexFilename g, K @ indexFilename g @ ''/'', K]
    \<and> matchRoute g K = Some r
    \<and> (map_get (routes g) (K @ indexFilename g) = None
        \<and> map_get (routes g) (K @ indexFilename g @ ''/'') = None
        \<longrightarrow> matchRoute g (K @ indexFilename g) = Some r)
    \<and> (\<forall>r'. map_get (routes g) (K @ indexFilename g) = Some r'
        \<longrightarrow> matchRoute g (K @ indexFilename g) = Some r')
    \<and> (\<forall>path. matchRoute g path =
          (case map_get (routes g) path of
             Some r1 \<Rightarrow> Some r1
           | None \<Rightarrow>
               (case map_get (routes g) (path @ ''/'') of
                  Some r2 \<Rightarrow> Some r2
                | None \<Rightarrow>
                    if endsWith path (''/'' @ indexFilename g)
                    then map_get (routes g) (substring path 0 (length path - length (indexFilename g)))
                    else None)))"
proof -
  have cands: "routeCandidates (indexFilename g) (K @ indexFilename g)
        = [K @ indexFilename g, K @ indexFilename g @ ''/'', K]"
    using assms(2) by (rule routeCandidates_index)
  have exact: "matchRoute g K = Some r"
    using assms(1) by (simp add: matchRoute_unfold)
  have stripped: "matchRoute g (K @ indexFilename g) = Some r"
    if "map_get (routes g) (K @ indexFilename g) = None"
      "map_get (routes g) (K @ indexFilename g @ ''/'') = None"
    using that assms(1) by (simp add: matchRoute_def cands)
  have first: "matchRoute g (K @ indexFilename g) = Some r'"
    if "map_get (routes g) (K @ indexFilename g) = Some r'" for r'
    using that by (simp add: matchRoute_def cands)
  have order: "matchRoute g path =
          (case map_get (routes g) path of
             Some r1 \<Rightarrow> Some r1
           | None \<Rightarrow>
               (case map_get (routes g) (path @ ''/'') of
                  Some r2 \<Rightarrow> Some r2
                | None \<Rightarrow>
                    if endsWith path (''/'' @ indexFilename g)
                    then map_get (routes g) (substring path 0 (length path - length (indexFilename g)))
                    else None))" for path
    by (simp add: matchRoute_unfold substring_def split: option.splits)
  show ?thesis
    using cands exact stripped first order by blast
qed

text \<open>The statement at \<open>/hi/\<close>, and at \<open>/foo/\<close> where \<open>/foo/index.html\<close> is a route of its own.\<close>

theorem index_suffix_resolution_witness:
  "map_get (routes todoSite) ''/hi/'' = Some (Module ''./pages/hi'')
   \<and> endsWith ''/hi/'' ''/''
   \<and> routeCandidates (indexFilename todoSite) ''/hi/index.html''
        = [''/hi/index.html'', ''/hi/index.html/'', ''/hi/'']
   \<and> map_get (routes todoSite) ''/hi/index.html'' = None
   \<and> map_get (routes todoSite) ''/hi/index.html/'' = None
   \<and> matchRoute todoSite ''/hi/index.html'' = Some (Module ''./pages/hi'')
   \<and> matchRoute todoSite ''/hi/'' = Some (Module ''./pages/hi'')
   \<and> map_get (routes indexSite) ''/foo/'' = Some (Module ''./pages/foo'')
   \<and> map_get (routes indexSite) ''/foo/index.html'' = Some (Module ''./pages/other'')
   \<and> matchRoute indexSite ''/foo/index.html'' = Some (Module ''./pages/other'')"
proof -
  have a: "map_get (routes todoSite) ''/hi/'' = Some (Module ''./pages/hi'')"
    and b: "endsWith ''/hi/'' ''/''"
    and c: "map_get (routes todoSite) ''/hi/index.html'' = None"
      "map_get (routes todoSite) ''/hi/index.html/'' = None"
    and i: "indexFilename todoSite = ''index.html''" "indexFilename indexSite = ''index.html''"
    and d: "map_get (routes indexSite) ''/foo/'' = Some (Module ''./pages/foo'')"
    and e: "endsWith ''/foo/'' ''/''"
    and f: "map_get (routes indexSite) ''/foo/index.html'' = Some (Module ''./pages/other'')"
    by (simp_all add: todoSite_def indexSite_def eval_defs)
  show ?thesis
    using index_suffix_resolution [OF a b] index_suffix_resolution [OF d e] a b c d f
    by (simp add: todoSite_def indexSite_def eval_defs)
qed

text \<open>
  Claim C2 as stated fails: with routes at \<open>/foo/\<close> and at \<open>/foo/index.html\<close>, the request
  \<open>/foo/index.html\<close> resolves to the second, not to the renderer of \<open>/foo/\<close>.
\<close>

theorem index_suffix_counterexample:
  "map_get (routes indexSite) ''/foo/'' = Some (Module ''./pages/foo'')
   \<and> endsWith ''/foo/'' ''/''
   \<and> indexFilename indexSite = ''index.html''
   \<and> matchRoute indexSite ''/foo/'' = Some (Module ''./pages/foo'')
   \<and> matchRoute indexSite (''/foo/'' @ ''index.html'') = Some (Module ''./pages/other'')
   \<and> matchRoute indexSite (''/foo/'' @ ''index.html'') \<noteq> matchRoute indexSite ''/foo/''"
  by (simp add: indexSite_def eval_defs)

subsection \<open>Static mappings\<close>

text \<open>
  Claim C8.  \<open>mapStatic\<close> raises an error and leaves the generator as it was when the route
  does not start with a slash or does not end with one; otherwise it raises nothing, the
  static mappings hold the directory under the route, every other key is as before, and
  the rest of the generator is unchanged.
\<close>

theorem mapStatic_validates:
  "(\<not> (startsWith route ''/'' \<and> endsWith route ''/'') \<longrightarrow>
      (\<exists>msg. mapStatic route directory g = (Some (Error msg), g)))
   \<and> (startsWith route ''/'' \<and> endsWith route ''/'' \<longrightarrow>
        fst (mapStatic route directory g) = None
        \<and> (\<forall>k. map_get (staticMappings (snd (mapStatic route directory g))) k
               = (if k = route then Some directory else map_get (staticMappings g) k))
        \<and> routes (snd (mapStatic route directory g)) = routes g
        \<and> indexFilename (snd (mapStatic route directory g)) = indexFilename g
        \<and> notFoundFilename (snd (mapStatic route directory g)) = notFoundFilename g)"
  by (simp add: mapStatic_def map_get_map_set)

text \<open>The statement at the routes \<open>assets/\<close>, \<open>/assets\<close> and \<open>/assets/\<close>.\<close>

theorem mapStatic_validates_witness:
  "\<not> (startsWith ''assets/'' ''/'' \<and> endsWith ''assets/'' ''/'')
   \<and> (\<exists>msg. mapStatic ''assets/'' ''./site-assets'' newSiteGenerator
                = (Some (Error msg), newSiteGenerator))
   \<and> \<not> (startsWith ''/assets'' ''/'' \<and> endsWith ''/assets'' ''/'')
   \<and> (\<exists>msg. mapStatic ''/assets'' ''./site-assets'' newSiteGenerator
                = (Some (Error msg), newSiteGenerator))
   \<and> startsWith ''/assets/'' ''/'' \<and> endsWith ''/assets/'' ''/''
   \<and> fst (mapStatic ''/assets/'' ''./site-assets'' newSiteGenerator) = None
   \<and> map_get (staticMappings (snd (mapStatic ''/assets/'' ''./site-assets'' newSiteGenerator)))
        ''/assets/'' = Some ''./site-assets''"
  using mapStatic_validates [of "''assets/''" "''./site-assets''" newSiteGenerator]
    mapStatic_validates [of "''/assets''" "''./site-assets''" newSiteGenerator]
    mapStatic_validates [of "''/assets/''" "''./site-assets''" newSiteGenerator]
  by (simp add: startsWith_def endsWith_def)

subsection \<open>The not-found fallback\<close>

lemma serveStatic_none_iff:
  "serveStatic w path ms = Inr None \<longleftrightarrow>
     list_all
       (\<lambda>(route, staticDir).
          startsWith path route \<longrightarrow>
            stat w (joinPaths staticDir (sanitize route path)) = Inl (SystemError ENOENT)
            \<or> stat w (joinPaths staticDir (sanitize route path)) = Inr Dir)
       ms"
proof (induction ms)
  case Nil
  show ?case by simp
next
  case (Cons m ms)
  obtain route staticDir where m: "m = (route, staticDir)"
    by (cases m)
  show ?case
  proof (cases "startsWith path route")
    case False
    then show ?thesis by (simp add: m Cons.IH)
  next
    case True
    show ?thesis
    proof (cases "stat w (joinPaths staticDir (sanitize route path))")
      case (Inl err)
      then show ?thesis using True by (simp add: m Cons.IH)
    next
      case (Inr fileInfo)
      then show ?thesis using True by (cases fileInfo) (simp_all add: m Cons.IH)
    qed
  qed
qed

lemma handlePath_unmatched:
  assumes "matchRoute g path = None" and "noStaticFile w g path"
  shows "handlePath importModule g w path =
     (case map_get (routes g) (''/'' @ notFoundFilename g) of
        None \<Rightarrow> Inr \<lparr>status = 404, body = Value (Text noRouteText)\<rparr>
      | Some nf \<Rightarrow> respond 404 (toResponseBody (invoke importModule nf)))"
proof -
  from assms(2) have "serveStatic w path (staticMappings g) = Inr None"
    by (simp add: serveStatic_none_iff noStaticFile_def)
  with assms(1) show ?thesis
    by (simp add: handlePath_def)
qed

text \<open>
  Claim C7, as amended.  When a request matches no page route, and under every static
  mapping whose prefix the path begins with the file looked up is missing (\<open>ENOENT\<close>) or is
  not a regular file, the loop over the static mappings ends without a response and the
  response has status 404: with the fixed diagnostic text when no renderer is registered
  under the not-found route, and otherwise with the normalised result of that renderer as
  its body (the handler fails when normalising that result fails).
\<close>

theorem not_found_fallback:
  assumes "matchRoute g (requestPath url) = None"
    and "noStaticFile w g (requestPath url)"
  shows "serveStatic w (requestPath url) (staticMappings g) = Inr None
    \<and> (map_get (routes g) (''/'' @ notFoundFilename g) = None \<longrightarrow>
           reqHandler importModule g w url =
             Inr \<lparr>status = 404,
                  body = Value (Text (ascii ''No route was found, and no 404 page was found either''))\<rparr>)
    \<and> (\<forall>nf b. map_get (routes g) (''/'' @ notFoundFilename g) = Some nf
           \<and> toResponseBody (invoke importModule nf) = Inr b \<longrightarrow>
           reqHandler importModule g w url = Inr \<lparr>status = 404, body = Value b\<rparr>)
    \<and> (\<forall>nf e. map_get (routes g) (''/'' @ notFoundFilename g) = Some nf
           \<and> toResponseBody (invoke importModule nf) = Inl e \<longrightarrow>
           reqHandler importModule g w url = Inl e)"
proof -
  from assms(2) have "serveStatic w (requestPath url) (staticMappings g) = Inr None"
    by (simp add: serveStatic_none_iff noStaticFile_def)
  then show ?thesis
    using handlePath_unmatched [OF assms, of importModule]
    by (auto simp: reqHandler_def respond_def noRouteText_def)
qed

lemmas platform_defs =
  joinPaths_def normalize_def normalizeSegments_def normalizeStep_def isAbsolute_def
  sanitize_def stat_def resolvePath_def noStaticFile_def mapStatic_def

lemma not_found_examples:
  "matchRoute markupSite ''/assets/x.png'' = None"
  "matchRoute nullSite ''/assets/x.png'' = None"
  "noStaticFile emptyWorld markupSite ''/assets/x.png''"
  "noStaticFile emptyWorld nullSite ''/assets/x.png''"
  "map_get (routes markupSite) (''/'' @ notFoundFilename markupSite)
     = Some (Direct (\<lambda>u. Markup [[0x3C, 0x70], [0x3E]]))"
  "map_get (routes nullSite) (''/'' @ notFoundFilename nullSite) = Some (Direct (\<lambda>u. Null))"
  "toResponseBody (Markup [[0x3C, 0x70], [0x3E]]) = Inr (Stream [[0x3C, 0x70], [0x3E]])"
  "toResponseBody Null = Inl TypeError"
proof -
  have s: "sanitize ''/assets/'' ''/assets/x.png'' = ''/x.png''"
    by (simp add: sanitize_def substringFrom_def startsWith_def)
  have j: "joinPaths ''./site-assets'' ''/x.png'' = ''site-assets/x.png''"
    by (simp add: platform_defs startsWith_def endsWith_def)
  have st: "stat emptyWorld ''site-assets/x.png'' = Inl (SystemError ENOENT)"
    by (simp add: platform_defs startsWith_def endsWith_def emptyWorld_def)
  show "matchRoute markupSite ''/assets/x.png'' = None"
    "matchRoute nullSite ''/assets/x.png'' = None"
    "map_get (routes markupSite) (''/'' @ notFoundFilename markupSite)
       = Some (Direct (\<lambda>u. Markup [[0x3C, 0x70], [0x3E]]))"
    "map_get (routes nullSite) (''/'' @ notFoundFilename nullSite) = Some (Direct (\<lambda>u. Null))"
    by (simp_all add: markupSite_def nullSite_def assetSite_def todoSite_def mapStatic_def eval_defs)
  show "noStaticFile emptyWorld markupSite ''/assets/x.png''"
    "noStaticFile emptyWorld nullSite ''/assets/x.png''"
    by (simp_all add: noStaticFile_def markupSite_def nullSite_def assetSite_def todoSite_def
        mapStatic_def setRoute_def setNotFound_def newSiteGenerator_def startsWith_def endsWith_def s j st)
  show "toResponseBody (Markup [[0x3C, 0x70], [0x3E]]) = Inr (Stream [[0x3C, 0x70], [0x3E]])"
    "toResponseBody Null = Inl TypeError"
    by (simp_all add: toResponseBody_def)
qed

text \<open>The statement at sites whose not-found renderer returns the text \<open>missing\<close>, an element
  and \<open>null\<close>, and at a site without a not-found renderer.\<close>

theorem not_found_fallback_witness:
  "matchRoute missingSite (requestPath ''http://localhost:3000/assets/x.png'') = None
   \<and> noStaticFile emptyWorld missingSite (requestPath ''http://localhost:3000/assets/x.png'')
   \<and> map_get (routes missingSite) (''/'' @ notFoundFilename missingSite)
        = Some (textRenderer ''missing'')
   \<and> toResponseBody (invoke noModules (textRenderer ''missing'')) = Inr (Text (ascii ''missing''))
   \<and> reqHandler noModules missingSite emptyWorld ''http://localhost:3000/assets/x.png''
        = Inr \<lparr>status = 404, body = Value (Text (ascii ''missing''))\<rparr>
   \<and> matchRoute assetSite (requestPath ''http://localhost:3000/assets/x.png'') = None
   \<and> noStaticFile emptyWorld assetSite (requestPath ''http://localhost:3000/assets/x.png'')
   \<and> map_get (routes assetSite) (''/'' @ notFoundFilename assetSite) = None
   \<and> reqHandler noModules assetSite emptyWorld ''http://localhost:3000/assets/x.png''
        = Inr \<lparr>status = 404,
               body = Value (Text (ascii ''No route was found, and no 404 page was found either''))\<rparr>
   \<and> matchRoute markupSite (requestPath ''http://localhost:3000/assets/x.png'') = None
   \<and> noStaticFile emptyWorld markupSite (requestPath ''http://localhost:3000/assets/x.png'')
   \<and> map_get (routes markupSite) (''/'' @ notFoundFilename markupSite)
        = Some (Direct (\<lambda>u. Markup [[0x3C, 0x70], [0x3E]]))
   \<and> reqHandler noModules markupSite emptyWorld ''http://localhost:3000/assets/x.png''
        = Inr \<lparr>status = 404, body = Value (Stream [[0x3C, 0x70], [0x3E]])\<rparr>
   \<and> matchRoute nullSite (requestPath ''http://localhost:3000/assets/x.png'') = None
   \<and> noStaticFile emptyWorld nullSite (requestPath ''http://localhost:3000/assets/x.png'')
   \<and> map_get (routes nullSite) (''/'' @ notFoundFilename nullSite) = Some (Direct (\<lambda>u. Null))
   \<and> reqHandler noModules nullSite emptyWorld ''http://localhost:3000/assets/x.png''
        = Inl TypeError"
proof -
  have p: "requestPath ''http://localhost:3000/assets/x.png'' = ''/assets/x.png''"
    by (simp add: eval_defs)
  have a: "matchRoute missingSite (requestPath ''http://localhost:3000/assets/x.png'') = None"
    and a': "matchRoute assetSite (requestPath ''http://localhost:3000/assets/x.png'') = None"
    unfolding p by (simp_all add: missingSite_def assetSite_def todoSite_def mapStatic_def eval_defs)
  have s: "sanitize ''/assets/'' ''/assets/x.png'' = ''/x.png''"
    by (simp add: sanitize_def substringFrom_def startsWith_def)
  have j: "joinPaths ''./site-assets'' ''/x.png'' = ''site-assets/x.png''"
    by (simp add: platform_defs startsWith_def endsWith_def)
  have st: "stat emptyWorld ''site-assets/x.png'' = Inl (SystemError ENOENT)"
    by (simp add: platform_defs startsWith_def endsWith_def emptyWorld_def)
  have b: "noStaticFile emptyWorld missingSite (requestPath ''http://localhost:3000/assets/x.png'')"
    and b': "noStaticFile emptyWorld assetSite (requestPath ''http://localhost:3000/assets/x.png'')"
    unfolding p
    by (simp_all add: noStaticFile_def missingSite_def assetSite_def todoSite_def mapStatic_def
        setRoute_def setNotFound_def newSiteGenerator_def startsWith_def endsWith_def s j st)
  have c: "map_get (routes missingSite) (''/'' @ notFoundFilename missingSite)
        = Some (textRenderer ''missing'')"
    and c': "map_get (routes assetSite) (''/'' @ notFoundFilename assetSite) = None"
    by (simp_all add: missingSite_def assetSite_def todoSite_def mapStatic_def eval_defs)
  have d: "toResponseBody (invoke noModules (textRenderer ''missing'')) = Inr (Text (ascii ''missing''))"
    by (simp add: toResponseBody_def textRenderer_def)
  have am: "matchRoute markupSite (requestPath ''http://localhost:3000/assets/x.png'') = None"
    and an: "matchRoute nullSite (requestPath ''http://localhost:3000/assets/x.png'') = None"
    and bm: "noStaticFile emptyWorld markupSite (requestPath ''http://localhost:3000/assets/x.png'')"
    and bn: "noStaticFile emptyWorld nullSite (requestPath ''http://localhost:3000/assets/x.png'')"
    unfolding p by (rule not_found_examples)+
  note e = not_found_examples(5-8)
  show ?thesis
    using not_found_fallback [OF a b, of noModules] not_found_fallback [OF a' b', of noModules]
      not_found_fallback [OF am bm, of noModules] not_found_fallback [OF an bn, of noModules]
      a b a' b' c c' d am bm an bn e
    by simp
qed

text \<open>
  Claim C7 as stated fails: with \<open>/assets/\<close> mapped to a directory that holds the regular file
  \<open>file.txt\<close>, the request for \<open>/assets/file.txt/x\<close> matches no page route and no static file
  (the lookup fails with \<open>ENOTDIR\<close>), and the handler fails with that error instead of
  answering 404, with or without a not-found renderer.
\<close>

theorem not_found_fallback_counterexample:
  "matchRoute assetSite (requestPath ''http://localhost:3000/assets/file.txt/x'') = None
   \<and> staticMappings assetSite = [(''/assets/'', ''./site-assets'')]
   \<and> startsWith (requestPath ''http://localhost:3000/assets/file.txt/x'') ''/assets/''
   \<and> joinPaths ''./site-assets''
         (sanitize ''/assets/'' (requestPath ''http://localhost:3000/assets/file.txt/x''))
        = ''site-assets/file.txt/x''
   \<and> stat fileWorld ''site-assets/file.txt/x'' = Inl (SystemError ENOTDIR)
   \<and> stat fileWorld ''site-assets/file.txt'' = Inr (File (utf8Encode (ascii ''hi'')))
   \<and> map_get (routes assetSite) (''/'' @ notFoundFilename assetSite) = None
   \<and> reqHandler noModules assetSite fileWorld ''http://localhost:3000/assets/file.txt/x''
        = Inl (SystemError ENOTDIR)
   \<and> map_get (routes missingSite) (''/'' @ notFoundFilename missingSite)
        = Some (textRenderer ''missing'')
   \<and> reqHandler noModules missingSite fileWorld ''http://localhost:3000/assets/file.txt/x''
        = Inl (SystemError ENOTDIR)"
proof -
  have p: "requestPath ''http://localhost:3000/assets/file.txt/x'' = ''/assets/file.txt/x''"
    by (simp add: eval_defs)
  have m: "matchRoute assetSite ''/assets/file.txt/x'' = None"
    "matchRoute missingSite ''/assets/file.txt/x'' = None"
    "staticMappings assetSite = [(''/assets/'', ''./site-assets'')]"
    "staticMappings missingSite = [(''/assets/'', ''./site-assets'')]"
    "map_get (routes assetSite) (''/'' @ notFoundFilename assetSite) = None"
    "map_get (routes missingSite) (''/'' @ notFoundFilename missingSite)
        = Some (textRenderer ''missing'')"
    by (simp_all add: missingSite_def assetSite_def todoSite_def mapStatic_def eval_defs)
  have s: "sanitize ''/assets/'' ''/assets/file.txt/x'' = ''/file.txt/x''"
    by (simp add: sanitize_def substringFrom_def startsWith_def)
  have j: "joinPaths ''./site-assets'' ''/file.txt/x'' = ''site-assets/file.txt/x''"
    by (simp add: platform_defs startsWith_def endsWith_def)
  have st: "stat fileWorld ''site-assets/file.txt/x'' = Inl (SystemError ENOTDIR)"
    "stat fileWorld ''site-assets/file.txt'' = Inr (File (utf8Encode (ascii ''hi'')))"
    by (simp_all add: platform_defs startsWith_def endsWith_def fileWorld_def)
  have sw: "startsWith ''/assets/file.txt/x'' ''/assets/''"
    by (simp add: startsWith_def)
  have sv: "serveStatic fileWorld ''/assets/file.txt/x'' [(''/assets/'', ''./site-assets'')]
      = Inl (SystemError ENOTDIR)"
    by (simp add: sw s j st)
  have h: "reqHandler noModules assetSite fileWorld ''http://localhost:3000/assets/file.txt/x''
        = Inl (SystemError ENOTDIR)"
    "reqHandler noModules missingSite fileWorld ''http://localhost:3000/assets/file.txt/x''
        = Inl (SystemError ENOTDIR)"
    by (simp_all add: reqHandler_def handlePath_def p m sw s j st)
  show ?thesis
    using h m by (simp add: p s j st sw)
qed

lemma routes_setNotFound:
  "routes (setNotFound a g)
     = map_set (''/'' @ notFoundFilename g)
         (case a of Inl r \<Rightarrow> r | Inr modulePath \<Rightarrow> moduleRenderer modulePath) (routes g)"
  by (simp add: setNotFound_def split: sum.splits)

text \<open>
  Claim C10, as amended.  \<open>setNotFound\<close> registers the renderer under the not-found filename
  of the moment of the call; the handler looks the fallback up under the filename of the
  moment of the request.  After \<open>setNotFound\<close> followed by \<open>setNotFoundFilename\<close> with a
  different name \<open>f\<close>, an unmatched request is answered by whatever route was registered
  under \<open>f\<close> before, and by the fixed diagnostic text when there is none.
\<close>

theorem not_found_filename_change:
  assumes "matchRoute (setNotFoundFilename f (setNotFound a g)) (requestPath url) = None"
    and "noStaticFile w (setNotFoundFilename f (setNotFound a g)) (requestPath url)"
  shows "map_get (routes (setNotFound a g)) (''/'' @ notFoundFilename g)
        = Some (case a of Inl r \<Rightarrow> r | Inr modulePath \<Rightarrow> moduleRenderer modulePath)
    \<and> reqHandler importModule (setNotFoundFilename f (setNotFound a g)) w url
        = (case map_get (routes (setNotFound a g)) (''/'' @ f) of
             None \<Rightarrow> Inr \<lparr>status = 404, body = Value (Text noRouteText)\<rparr>
           | Some nf \<Rightarrow> respond 404 (toResponseBody (invoke importModule nf)))
    \<and> (f \<noteq> notFoundFilename g \<longrightarrow>
          map_get (routes (setNotFound a g)) (''/'' @ f) = map_get (routes g) (''/'' @ f))
    \<and> (f \<noteq> notFoundFilename g \<and> map_get (routes g) (''/'' @ f) = None \<longrightarrow>
          reqHandler importModule (setNotFoundFilename f (setNotFound a g)) w url
            = Inr \<lparr>status = 404, body = Value (Text noRouteText)\<rparr>)"
proof -
  have reg: "map_get (routes (setNotFound a g)) (''/'' @ notFoundFilename g)
        = Some (case a of Inl r \<Rightarrow> r | Inr modulePath \<Rightarrow> moduleRenderer modulePath)"
    by (simp add: routes_setNotFound map_get_map_set)
  have other: "map_get (routes (setNotFound a g)) (''/'' @ f) = map_get (routes g) (''/'' @ f)"
    if "f \<noteq> notFoundFilename g"
    using that by (simp add: routes_setNotFound map_get_map_set)
  have handler: "reqHandler importModule (setNotFoundFilename f (setNotFound a g)) w url
        = (case map_get (routes (setNotFound a g)) (''/'' @ f) of
             None \<Rightarrow> Inr \<lparr>status = 404, body = Value (Text noRouteText)\<rparr>
           | Some nf \<Rightarrow> respond 404 (toResponseBody (invoke importModule nf)))"
    using handlePath_unmatched [OF assms, of importModule]
    by (simp add: reqHandler_def setNotFoundFilename_def)
  show ?thesis
    using reg other handler by simp
qed

text \<open>The statement at a site with no route under the new name.\<close>

theorem not_found_filename_change_witness:
  "matchRoute (setNotFoundFilename ''missing.html'' (setNotFound (Inl (textRenderer ''missing'')) todoSite))
      (requestPath ''http://localhost:3000/nope'') = None
   \<and> noStaticFile emptyWorld
        (setNotFoundFilename ''missing.html'' (setNotFound (Inl (textRenderer ''missing'')) todoSite))
        (requestPath ''http://localhost:3000/nope'')
   \<and> ''missing.html'' \<noteq> notFoundFilename todoSite
   \<and> map_get (routes todoSite) (''/'' @ ''missing.html'') = None
   \<and> map_get (routes (setNotFound (Inl (textRenderer ''missing'')) todoSite)) ''/404.html''
        = Some (textRenderer ''missing'')
   \<and> reqHandler noModules
        (setNotFoundFilename ''missing.html'' (setNotFound (Inl (textRenderer ''missing'')) todoSite))
        emptyWorld ''http://localhost:3000/nope''
        = Inr \<lparr>status = 404, body = Value (Text noRouteText)\<rparr>"
proof -
  have a: "matchRoute (setNotFoundFilename ''missing.html'' (setNotFound (Inl (textRenderer ''missing'')) todoSite))
      (requestPath ''http://localhost:3000/nope'') = None"
    by (simp add: todoSite_def eval_defs)
  have b: "noStaticFile emptyWorld
        (setNotFoundFilename ''missing.html'' (setNotFound (Inl (textRenderer ''missing'')) todoSite))
        (requestPath ''http://localhost:3000/nope'')"
    by (simp add: noStaticFile_def todoSite_def setNotFoundFilename_def setNotFound_def
        setRoute_def newSiteGenerator_def)
  have c: "''missing.html'' \<noteq> notFoundFilename todoSite"
    "map_get (routes todoSite) (''/'' @ ''missing.html'') = None"
    "notFoundFilename todoSite = ''404.html''"
    by (simp_all add: todoSite_def eval_defs)
  show ?thesis
    using not_found_filename_change [OF a b, of noModules] a b c
    by simp
qed

text \<open>
  Claim C10 as stated fails: when a route is already registered under the new name, an
  unmatched request is answered by that route's renderer, not by the diagnostic text.
\<close>

theorem not_found_filename_change_counterexample:
  "customSite =
     setNotFoundFilename ''missing.html''
       (setNotFound (Inl (textRenderer ''missing''))
          (setRoute ''/missing.html'' (Inl (textRenderer ''custom'')) newSiteGenerator))
   \<and> ''missing.html'' \<noteq> notFoundFilename (setRoute ''/missing.html'' (Inl (textRenderer ''custom'')) newSiteGenerator)
   \<and> matchRoute customSite (requestPath ''http://localhost:3000/nope'') = None
   \<and> noStaticFile emptyWorld customSite (requestPath ''http://localhost:3000/nope'')
   \<and> reqHandler noModules customSite emptyWorld ''http://localhost:3000/nope''
        = Inr \<lparr>status = 404, body = Value (Text (ascii ''custom''))\<rparr>
   \<and> reqHandler noModules customSite emptyWorld ''http://localhost:3000/nope''
        \<noteq> Inr \<lparr>status = 404, body = Value (Text noRouteText)\<rparr>"
  by (simp add: customSite_def noStaticFile_def eval_defs noRouteText_def ascii_def)

subsection \<open>Option parsing\<close>

lemma parse_args_eq: "args (parse toks False) = filter (\<lambda>t. \<not> spec_is_option t) toks"
  using parse_loop_args [of "[]" "[]" toks] by (simp add: parse_def Let_def)

lemma parse_options_eq:
  "getOption (parse toks False) k = map_of (rev (map spec_option (filter spec_is_option toks))) k"
  using parse_loop_options [of "[]" "[]" toks]
  by (simp add: parse_def getOption_def map_get_def Let_def)

lemma isOptionTrueDefault_eq:
  "isOptionTrueDefault p k
       = (case getOption p k of
            None \<Rightarrow> False
          | Some None \<Rightarrow> True
          | Some (Some v) \<Rightarrow> toLowerCase v \<in> {''true'', ''yes'', ''y'', ''1''})"
  by (simp add: isOptionTrueDefault_def isOptionTrue_def getOption_def toLowerCase_def
      toLowerChar_def upperCaseLetters_def lowerCaseLetters_def split: option.splits)

lemma toLowerChar_t: "toLowerChar c = CHR ''t'' \<longleftrightarrow> c = CHR ''t'' \<or> c = CHR ''T''"
  by (auto simp: toLowerChar_def upperCaseLetters_def lowerCaseLetters_def split: if_splits)

lemma toLowerChar_r: "toLowerChar c = CHR ''r'' \<longleftrightarrow> c = CHR ''r'' \<or> c = CHR ''R''"
  by (auto simp: toLowerChar_def upperCaseLetters_def lowerCaseLetters_def split: if_splits)

lemma toLowerChar_u: "toLowerChar c = CHR ''u'' \<longleftrightarrow> c = CHR ''u'' \<or> c = CHR ''U''"
  by (auto simp: toLowerChar_def upperCaseLetters_def lowerCaseLetters_def split: if_splits)

lemma toLowerChar_e: "toLowerChar c = CHR ''e'' \<longleftrightarrow> c = CHR ''e'' \<or> c = CHR ''E''"
  by (auto simp: toLowerChar_def upperCaseLetters_def lowerCaseLetters_def split: if_splits)

lemma toLowerChar_y: "toLowerChar c = CHR ''y'' \<longleftrightarrow> c = CHR ''y'' \<or> c = CHR ''Y''"
  by (auto simp: toLowerChar_def upperCaseLetters_def lowerCaseLetters_def split: if_splits)

lemma toLowerChar_s: "toLowerChar c = CHR ''s'' \<longleftrightarrow> c = CHR ''s'' \<or> c = CHR ''S''"
  by (auto simp: toLowerChar_def upperCaseLetters_def lowerCaseLetters_def split: if_splits)

lemma toLowerChar_1: "toLowerChar c = CHR ''1'' \<longleftrightarrow> c = CHR ''1''"
  by (auto simp: toLowerChar_def upperCaseLetters_def lowerCaseLetters_def split: if_splits)

lemma map_eq_1: "map f v = [x] \<longleftrightarrow> (\<exists>a. v = [a] \<and> f a = x)"
  by (cases v) auto

lemma map_eq_3:
  "map f v = [x, y, z]
     \<longleftrightarrow> (\<exists>a b c. v = [a, b, c] \<and> f a = x \<and> f b = y \<and> f c = z)"
  by (simp add: map_eq_Cons_conv map_eq_1) blast

lemma map_eq_4:
  "map f v = [x, y, z, u]
     \<longleftrightarrow> (\<exists>a b c d. v = [a, b, c, d] \<and> f a = x \<and> f b = y \<and> f c = z \<and> f d = u)"
  by (simp add: map_eq_Cons_conv map_eq_1) blast

lemma lower_true:
  "toLowerCase v = ''true'' \<longleftrightarrow>
     (\<exists>a b c d. v = [a, b, c, d] \<and> a \<in> {CHR ''t'', CHR ''T''} \<and> b \<in> {CHR ''r'', CHR ''R''}
        \<and> c \<in> {CHR ''u'', CHR ''U''} \<and> d \<in> {CHR ''e'', CHR ''E''})"
  unfolding toLowerCase_def map_eq_4 toLowerChar_t toLowerChar_r toLowerChar_u toLowerChar_e
  by (simp only: insert_iff empty_iff simp_thms)

lemma lower_yes:
  "toLowerCase v = ''yes'' \<longleftrightarrow>
     (\<exists>a b c. v = [a, b, c] \<and> a \<in> {CHR ''y'', CHR ''Y''} \<and> b \<in> {CHR ''e'', CHR ''E''}
        \<and> c \<in> {CHR ''s'', CHR ''S''})"
  unfolding toLowerCase_def map_eq_3 toLowerChar_y toLowerChar_e toLowerChar_s
  by (simp only: insert_iff empty_iff simp_thms)

lemma lower_y: "toLowerCase v = ''y'' \<longleftrightarrow> v = ''y'' \<or> v = ''Y''"
  unfolding toLowerCase_def map_eq_1 toLowerChar_y by blast

lemma lower_1: "toLowerCase v = ''1'' \<longleftrightarrow> v = ''1''"
  unfolding toLowerCase_def map_eq_1 toLowerChar_1 by blast

lemma default_true_values:
  "toLowerCase v \<in> {''true'', ''yes'', ''y'', ''1''} \<longleftrightarrow>
     (\<exists>a b c d. v = [a, b, c, d] \<and> a \<in> {CHR ''t'', CHR ''T''} \<and> b \<in> {CHR ''r'', CHR ''R''}
        \<and> c \<in> {CHR ''u'', CHR ''U''} \<and> d \<in> {CHR ''e'', CHR ''E''})
     \<or> (\<exists>a b c. v = [a, b, c] \<and> a \<in> {CHR ''y'', CHR ''Y''} \<and> b \<in> {CHR ''e'', CHR ''E''}
        \<and> c \<in> {CHR ''s'', CHR ''S''})
     \<or> v \<in> {''y'', ''Y'', ''1''}"
proof -
  have "toLowerCase v \<in> {''true'', ''yes'', ''y'', ''1''} \<longleftrightarrow>
      toLowerCase v = ''true'' \<or> toLowerCase v = ''yes'' \<or> toLowerCase v = ''y''
      \<or> toLowerCase v = ''1''"
    by (simp only: insert_iff empty_iff simp_thms)
  also have "\<dots> \<longleftrightarrow>
     (\<exists>a b c d. v = [a, b, c, d] \<and> a \<in> {CHR ''t'', CHR ''T''} \<and> b \<in> {CHR ''r'', CHR ''R''}
        \<and> c \<in> {CHR ''u'', CHR ''U''} \<and> d \<in> {CHR ''e'', CHR ''E''})
     \<or> (\<exists>a b c. v = [a, b, c] \<and> a \<in> {CHR ''y'', CHR ''Y''} \<and> b \<in> {CHR ''e'', CHR ''E''}
        \<and> c \<in> {CHR ''s'', CHR ''S''})
     \<or> v \<in> {''y'', ''Y'', ''1''}"
    unfolding lower_true lower_yes lower_y lower_1
    by (simp only: insert_iff empty_iff simp_thms disj_assoc)
  finally show ?thesis .
qed

lemma default_true_examples:
  "toLowerCase ''ABCDEFGHIJKLMNOPQRSTUVWXYZ'' = ''abcdefghijklmnopqrstuvwxyz''"
  "isOptionTrueDefault (parse [''--x=YeS''] False) ''x''"
  "isOptionTrueDefault (parse [''--x=TRUE''] False) ''x''"
  "\<not> isOptionTrueDefault (parse [''--x=no''] False) ''x''"
  "\<not> isOptionTrueDefault (parse [''build''] False) ''x''"
  by (simp_all add: isOptionTrueDefault_eq parse_options_eq spec_is_option_def spec_option_def
      toLowerCase_def toLowerChar_def upperCaseLetters_def lowerCaseLetters_def)

text \<open>
  Claim C9.  Parsing keeps as positional arguments exactly the tokens that do not begin
  with two hyphens, in order; every other token is an option, split at its first \<open>=\<close> into
  key and value, or a key with the null value when it has no \<open>=\<close>; the last token of a key
  decides its value.  With \<open>sliceFirstTwo\<close> the first two tokens are dropped first.  On the
  tokens \<open>--out=dist\<close>, \<open>--clear-out\<close>, \<open>build\<close> the positional arguments are \<open>build\<close>,
  \<open>out\<close> is \<open>dist\<close>, \<open>clear-out\<close> is null and \<open>isOptionTrue\<close> of it holds.  With its
  default parameters \<open>isOptionTrue\<close> is false for an absent option, true for an option without
  value, and otherwise tells whether the lower-cased value is one of \<open>true\<close>, \<open>yes\<close>, \<open>y\<close>, \<open>1\<close>:
  whether the value is one of these words with each letter in either case.  So \<open>--x=YeS\<close> and
  \<open>--x=TRUE\<close> make \<open>x\<close> true, and \<open>--x=no\<close> does not.
\<close>

theorem parse_contract:
  "args (parse toks False) = filter (\<lambda>t. \<not> spec_is_option t) toks
   \<and> getOption (parse toks False) k
       = map_of (rev (map spec_option (filter spec_is_option toks))) k
   \<and> parse raw True = parse (drop 2 raw) False
   \<and> args (parse [''--out=dist'', ''--clear-out'', ''build''] False) = [''build'']
   \<and> getOption (parse [''--out=dist'', ''--clear-out'', ''build''] False) ''out'' = Some (Some ''dist'')
   \<and> getOption (parse [''--out=dist'', ''--clear-out'', ''build''] False) ''clear-out'' = Some None
   \<and> isOptionTrueDefault (parse [''--out=dist'', ''--clear-out'', ''build''] False) ''clear-out''
   \<and> isOptionTrueDefault p k
       = (case getOption p k of
            None \<Rightarrow> False
          | Some None \<Rightarrow> True
          | Some (Some v) \<Rightarrow> toLowerCase v \<in> {''true'', ''yes'', ''y'', ''1''})
   \<and> (toLowerCase val \<in> {''true'', ''yes'', ''y'', ''1''} \<longleftrightarrow>
        (\<exists>a b c d. val = [a, b, c, d] \<and> a \<in> {CHR ''t'', CHR ''T''} \<and> b \<in> {CHR ''r'', CHR ''R''}
           \<and> c \<in> {CHR ''u'', CHR ''U''} \<and> d \<in> {CHR ''e'', CHR ''E''})
        \<or> (\<exists>a b c. val = [a, b, c] \<and> a \<in> {CHR ''y'', CHR ''Y''} \<and> b \<in> {CHR ''e'', CHR ''E''}
           \<and> c \<in> {CHR ''s'', CHR ''S''})
        \<or> val \<in> {''y'', ''Y'', ''1''})
   \<and> toLowerCase ''ABCDEFGHIJKLMNOPQRSTUVWXYZ'' = ''abcdefghijklmnopqrstuvwxyz''
   \<and> isOptionTrueDefault (parse [''--x=YeS''] False) ''x''
   \<and> isOptionTrueDefault (parse [''--x=TRUE''] False) ''x''
   \<and> \<not> isOptionTrueDefault (parse [''--x=no''] False) ''x''
   \<and> \<not> isOptionTrueDefault (parse [''build''] False) ''x''"
proof -
  have a: "args (parse toks False) = filter (\<lambda>t. \<not> spec_is_option t) toks"
    by (rule parse_args_eq)
  have o: "getOption (parse toks False) k
       = map_of (rev (map spec_option (filter spec_is_option toks))) k"
    by (rule parse_options_eq)
  have s: "parse raw True = parse (drop 2 raw) False"
    by (simp add: parse_def)
  have e: "spec_is_option ''--out=dist''" "spec_is_option ''--clear-out''" "\<not> spec_is_option ''build''"
    "spec_option ''--out=dist'' = (''out'', Some ''dist'')"
    "spec_option ''--clear-out'' = (''clear-out'', None)"
    by (simp_all add: spec_is_option_def spec_option_def)
  have ex: "args (parse [''--out=dist'', ''--clear-out'', ''build''] False) = [''build'']"
    "getOption (parse [''--out=dist'', ''--clear-out'', ''build''] False) ''out'' = Some (Some ''dist'')"
    "getOption (parse [''--out=dist'', ''--clear-out'', ''build''] False) ''clear-out'' = Some None"
    by (simp_all add: parse_args_eq parse_options_eq e)
  have t: "isOptionTrueDefault p k
       = (case getOption p k of
            None \<Rightarrow> False
          | Some None \<Rightarrow> True
          | Some (Some v) \<Rightarrow> toLowerCase v \<in> {''true'', ''yes'', ''y'', ''1''})"
    by (rule isOptionTrueDefault_eq)
  have c: "isOptionTrueDefault (parse [''--out=dist'', ''--clear-out'', ''build''] False) ''clear-out''"
    by (simp add: isOptionTrueDefault_eq ex)
  note d = default_true_values [of val]
  note x = default_true_examples
  show ?thesis
    by (intro conjI) (rule a o s ex t c d x)+
qed

subsection \<open>The sanitised path has no slash followed by two dots\<close>

lemma leading_dots_strip:
  "length (takeWhile (\<lambda>d. d = CHR ''.'') (stripDotSegments cs))
     = length (takeWhile (\<lambda>d. d = CHR ''.'') cs)"
proof (induction cs rule: stripDotSegments.induct)
  case 1
  show ?case by simp
next
  case (2 c cs)
  show ?case
  proof (cases "c = CHR ''/'' \<and> 2 \<le> length (takeWhile (\<lambda>d. d = CHR ''.'') cs)")
    case True
    have "takeWhile (\<lambda>d. d = CHR ''.'') (dropWhile (\<lambda>d. d = CHR ''.'') cs) = []"
      by (induction cs) auto
    with True 2(1) show ?thesis by simp
  next
    case False
    with 2(2) show ?thesis by auto
  qed
qed

lemma strip_no_dotdot: "\<not> hasDotDot (stripDotSegments cs)"
proof (induction cs rule: stripDotSegments.induct)
  case 1
  show ?case by simp
next
  case (2 c cs)
  show ?case
  proof (cases "c = CHR ''/'' \<and> 2 \<le> length (takeWhile (\<lambda>d. d = CHR ''.'') cs)")
    case True
    with 2(1) show ?thesis by simp
  next
    case False
    with 2(2) show ?thesis by (auto simp: leading_dots_strip)
  qed
qed

subsection \<open>Splitting at slashes\<close>

lemma split_on_nonempty [simp]: "split_on c xs \<noteq> []"
  by (induction xs) (auto split: list.splits)

lemma hd_split_on: "hd (split_on c xs) = takeWhile (\<lambda>x. x \<noteq> c) xs"
  by (induction xs) (auto split: list.splits)

lemma split_on_append: "split_on c (xs @ c # ys) = split_on c xs @ split_on c ys"
  by (induction xs) (auto split: list.splits)

lemma split_on_no_sep: "c \<notin> set xs \<Longrightarrow> split_on c xs = [xs]"
  by (induction xs) auto

lemma split_on_sep_free: "seg \<in> set (split_on c xs) \<Longrightarrow> c \<notin> set seg"
  by (induction xs arbitrary: seg) (auto split: list.splits if_splits)

lemma split_on_joinSegments:
  "segs \<noteq> [] \<Longrightarrow> \<forall>seg \<in> set segs. CHR ''/'' \<notin> set seg
     \<Longrightarrow> split_on (CHR ''/'') (joinSegments segs) = segs"
proof (induction segs rule: joinSegments.induct)
  case 1
  then show ?case by simp
next
  case (2 s)
  then show ?case by (simp add: split_on_no_sep)
next
  case (3 s t ss)
  then have "split_on (CHR ''/'') (joinSegments (t # ss)) = t # ss"
    by simp
  moreover have "split_on (CHR ''/'') s = [s]"
    using 3(3) by (simp add: split_on_no_sep)
  ultimately show ?case
    using split_on_append [of "CHR ''/''" s "joinSegments (t # ss)"] by simp
qed

lemma leading_dots_takeWhile:
  "takeWhile (\<lambda>d. d = CHR ''.'') (takeWhile (\<lambda>x. x \<noteq> CHR ''/'') cs)
     = takeWhile (\<lambda>d. d = CHR ''.'') cs"
  by (induction cs) auto

lemma segments_few_dots:
  "\<not> hasDotDot s \<Longrightarrow> seg \<in> set (tl (split_on (CHR ''/'') s))
     \<Longrightarrow> length (takeWhile (\<lambda>d. d = CHR ''.'') seg) < 2"
proof (induction s arbitrary: seg)
  case Nil
  then show ?case by simp
next
  case (Cons c cs)
  show ?case
  proof (cases "c = CHR ''/''")
    case True
    with Cons.prems have mem: "seg \<in> set (split_on (CHR ''/'') cs)"
      and few: "length (takeWhile (\<lambda>d. d = CHR ''.'') cs) < 2" and no: "\<not> hasDotDot cs"
      by auto
    from mem have "seg = hd (split_on (CHR ''/'') cs) \<or> seg \<in> set (tl (split_on (CHR ''/'') cs))"
      by (cases "split_on (CHR ''/'') cs") auto
    then show ?thesis
    proof
      assume "seg = hd (split_on (CHR ''/'') cs)"
      then show ?thesis
        using few by (simp add: hd_split_on leading_dots_takeWhile)
    next
      assume "seg \<in> set (tl (split_on (CHR ''/'') cs))"
      with no show ?thesis by (rule Cons.IH)
    qed
  next
    case False
    with Cons.prems have "seg \<in> set (tl (split_on (CHR ''/'') cs))" and "\<not> hasDotDot cs"
      by (auto split: list.splits)
    then show ?thesis using Cons.IH by blast
  qed
qed

lemma sanitize_segments:
  assumes "seg \<in> set (split_on (CHR ''/'') (sanitize route path))"
  shows "seg \<noteq> ''..''"
proof -
  define dirPath where "dirPath =
    (if \<not> startsWith (substringFrom path (length route)) ''/''
     then ''/'' @ substringFrom path (length route) else substringFrom path (length route))"
  have s: "sanitize route path = stripDotSegments dirPath"
    by (simp add: sanitize_def dirPath_def Let_def)
  have "takeWhile (\<lambda>d. d = CHR ''.'') dirPath = []"
    by (cases "substringFrom path (length route)") (auto simp: dirPath_def startsWith_def)
  then have lead: "length (takeWhile (\<lambda>d. d = CHR ''.'') (sanitize route path)) = 0"
    by (simp add: s leading_dots_strip)
  have no: "\<not> hasDotDot (sanitize route path)"
    by (simp add: s strip_no_dotdot)
  from assms have "seg = hd (split_on (CHR ''/'') (sanitize route path))
      \<or> seg \<in> set (tl (split_on (CHR ''/'') (sanitize route path)))"
    by (cases "split_on (CHR ''/'') (sanitize route path)") auto
  then have "length (takeWhile (\<lambda>d. d = CHR ''.'') seg) < 2"
  proof
    assume "seg = hd (split_on (CHR ''/'') (sanitize route path))"
    then show ?thesis
      using lead by (simp add: hd_split_on leading_dots_takeWhile)
  next
    assume "seg \<in> set (tl (split_on (CHR ''/'') (sanitize route path)))"
    with no show ?thesis by (rule segments_few_dots)
  qed
  then show ?thesis by auto
qed

subsection \<open>Normalisation\<close>

lemma normalize_without_dotdot:
  "''..'' \<notin> set segs
     \<Longrightarrow> foldl (normalizeStep allow) st segs = st @ filter keepSegment segs"
  by (induction segs arbitrary: st) (auto simp: normalizeStep_def keepSegment_def)

lemma dotdot_block:
  assumes "''..'' \<notin> set (dropWhile (\<lambda>seg. seg = ''..'') st)" and "st \<noteq> []" and "last st = ''..''"
  shows "dropWhile (\<lambda>seg. seg = ''..'') st = []"
proof (rule ccontr)
  assume ne: "dropWhile (\<lambda>seg. seg = ''..'') st \<noteq> []"
  then have "last (dropWhile (\<lambda>seg. seg = ''..'') st) = last st"
    by (metis last_appendR takeWhile_dropWhile_id)
  with ne assms show False
    by (metis last_in_set)
qed

lemma set_dropWhile_append: "set (dropWhile P ys) \<subseteq> set (dropWhile P (ys @ zs))"
  by (induction ys) auto

lemma normalStack_step:
  assumes "normalStack allow st"
  shows "normalStack allow (normalizeStep allow st seg)"
proof -
  let ?P = "\<lambda>seg. seg = ''..''"
  consider (skip) "seg = [] \<or> seg = ''.''"
    | (pop) "seg = ''..''" "st \<noteq> []" "last st \<noteq> ''..''"
    | (up) "seg = ''..''" "st = [] \<or> last st = ''..''" "allow"
    | (stay) "seg = ''..''" "st = [] \<or> last st = ''..''" "\<not> allow"
    | (push) "seg \<noteq> []" "seg \<noteq> ''.''" "seg \<noteq> ''..''"
    by blast
  then show ?thesis
  proof cases
    case skip
    with assms show ?thesis by (auto simp: normalizeStep_def)
  next
    case pop
    then obtain ys y where st: "st = ys @ [y]" "y \<noteq> ''..''"
      by (cases st rule: rev_cases) auto
    have "set (dropWhile ?P ys) \<subseteq> set (dropWhile ?P (ys @ [y]))"
      by (rule set_dropWhile_append)
    with assms pop st show ?thesis
      by (auto simp: normalizeStep_def normalStack_def)
  next
    case up
    have "dropWhile ?P st = []"
    proof (cases "st = []")
      case True
      then show ?thesis by simp
    next
      case False
      with up(2) have "last st = ''..''"
        by simp
      moreover from assms have "''..'' \<notin> set (dropWhile ?P st)"
        by (simp add: normalStack_def)
      ultimately show ?thesis
        using False by (intro dotdot_block)
    qed
    then have "dropWhile ?P (st @ [''..'']) = []"
      by (simp add: dropWhile_eq_Nil_conv)
    with assms up show ?thesis
      by (auto simp: normalizeStep_def normalStack_def)
  next
    case stay
    with assms show ?thesis by (auto simp: normalizeStep_def)
  next
    case push
    have "set (dropWhile ?P (st @ [seg])) \<subseteq> set (dropWhile ?P st) \<union> {seg}"
      by (auto simp: dropWhile_append split: if_splits)
    with assms push show ?thesis
      by (auto simp: normalizeStep_def normalStack_def)
  qed
qed

lemma normalStack_foldl:
  "normalStack allow st \<Longrightarrow> normalStack allow (foldl (normalizeStep allow) st segs)"
  by (induction segs arbitrary: st) (simp_all add: normalStack_step)

lemma normalStack_normalizeSegments: "normalStack allow (normalizeSegments allow segs)"
  unfolding normalizeSegments_def by (rule normalStack_foldl) (simp add: normalStack_def)

lemma normalStack_replay:
  "normalStack allow (acc @ st) \<Longrightarrow> foldl (normalizeStep allow) acc st = acc @ st"
proof (induction st arbitrary: acc)
  case Nil
  show ?case by simp
next
  case (Cons seg st)
  have step: "normalizeStep allow acc seg = acc @ [seg]"
  proof (cases "seg = ''..''")
    case False
    with Cons.prems show ?thesis
      by (auto simp: normalizeStep_def normalStack_def)
  next
    case True
    have "''..'' \<in> set (acc @ seg # st)"
      using True by simp
    with Cons.prems have allow: allow
      by (auto simp: normalStack_def)
    have "dropWhile (\<lambda>seg. seg = ''..'') acc = []"
    proof (rule ccontr)
      assume "dropWhile (\<lambda>seg. seg = ''..'') acc \<noteq> []"
      then have "\<not> (\<forall>x \<in> set acc. x = ''..'')"
        by (simp add: dropWhile_eq_Nil_conv)
      then have "dropWhile (\<lambda>seg. seg = ''..'') (acc @ seg # st)
          = dropWhile (\<lambda>seg. seg = ''..'') acc @ seg # st"
        by (simp only: dropWhile_append if_False)
      with Cons.prems True show False
        by (auto simp: normalStack_def)
    qed
    then have "acc = [] \<or> last acc = ''..''"
      by (cases acc rule: rev_cases) (auto simp: dropWhile_eq_Nil_conv)
    with True allow show ?thesis
      by (auto simp: normalizeStep_def)
  qed
  from Cons.prems have "normalStack allow ((acc @ [seg]) @ st)"
    by simp
  then have "foldl (normalizeStep allow) (acc @ [seg]) st = (acc @ [seg]) @ st"
    by (rule Cons.IH)
  with step show ?case by simp
qed

lemma normalizeSegments_idem:
  "normalizeSegments allow (normalizeSegments allow segs) = normalizeSegments allow segs"
  using normalStack_replay [of allow "[]" "normalizeSegments allow segs"]
    normalStack_normalizeSegments [of allow segs]
  by (simp add: normalizeSegments_def)

lemma set_normalizeStep: "set (normalizeStep allow st seg) \<subseteq> set st \<union> {seg}"
  by (auto simp: normalizeStep_def dest: in_set_butlastD)

lemma set_normalize_foldl: "set (foldl (normalizeStep allow) st segs) \<subseteq> set st \<union> set segs"
proof (induction segs arbitrary: st)
  case Nil
  show ?case by simp
next
  case (Cons seg segs)
  show ?case
    using Cons.IH [of "normalizeStep allow st seg"] set_normalizeStep [of allow st seg]
    by auto
qed

lemma normalizeSegments_sep_free:
  "seg \<in> set (normalizeSegments allow (split_on c xs)) \<Longrightarrow> c \<notin> set seg"
  using set_normalize_foldl [of allow "[]" "split_on c xs"] split_on_sep_free [of seg c xs]
  by (auto simp: normalizeSegments_def)

lemma joinSegments_hd:
  "segs \<noteq> [] \<Longrightarrow> hd segs \<noteq> [] \<Longrightarrow> joinSegments segs \<noteq> [] \<and> hd (joinSegments segs) = hd (hd segs)"
  by (induction segs rule: joinSegments.induct) auto

lemma normalizeSegments_empties:
  "normalizeSegments allow ([] # segs) = normalizeSegments allow segs"
  "normalizeSegments allow (segs @ [[]]) = normalizeSegments allow segs"
  by (simp_all add: normalizeSegments_def normalizeStep_def)

lemma lexicalForm_normalize:
  assumes "x \<noteq> []"
  shows "lexicalForm (normalize x) = lexicalForm x"
proof -
  define a where "a = isAbsolute x"
  define segs where "segs = normalizeSegments (\<not> a) (split_on (CHR ''/'') x)"
  have form: "lexicalForm x = (a, segs)"
    by (simp add: lexicalForm_def a_def segs_def)
  have normal: "normalStack (\<not> a) segs"
    unfolding segs_def by (rule normalStack_normalizeSegments)
  have sep: "\<forall>seg \<in> set segs. CHR ''/'' \<notin> set seg"
    unfolding segs_def by (auto dest: normalizeSegments_sep_free)
  show ?thesis
  proof (cases "segs = []")
    case True
    then have "normalize x = (if a then ''/'' else if endsWith x ''/'' then ''./'' else ''.'')"
      using assms by (simp add: normalize_def a_def segs_def Let_def)
    moreover have "lexicalForm ''/'' = (True, [])" "lexicalForm ''./'' = (False, [])"
      "lexicalForm ''.'' = (False, [])"
      by (simp_all add: lexicalForm_def isAbsolute_def startsWith_def normalizeSegments_def
          normalizeStep_def)
    ultimately show ?thesis
      using True by (simp add: form)
  next
    case False
    define p where "p = joinSegments segs"
    from False normal have "hd segs \<noteq> []"
      by (cases segs) (auto simp: normalStack_def)
    with False have p: "p \<noteq> []" "hd p = hd (hd segs)"
      using joinSegments_hd [of segs] by (simp_all add: p_def)
    from False sep have "CHR ''/'' \<notin> set (hd segs)"
      by (cases segs) auto
    with \<open>hd segs \<noteq> []\<close> p have hdp: "hd p \<noteq> CHR ''/''"
      by (cases "hd segs") auto
    have split_p: "split_on (CHR ''/'') p = segs"
      unfolding p_def using False sep by (rule split_on_joinSegments)
    have n: "normalize x = (if a then ''/'' else []) @ p @ (if endsWith x ''/'' then ''/'' else [])"
      using assms p(1) by (simp add: normalize_def a_def segs_def p_def Let_def)
    have abs: "isAbsolute (normalize x) = a"
      using p(1) hdp by (cases p) (auto simp: n isAbsolute_def startsWith_def)
    have "split_on (CHR ''/'') (p @ (if endsWith x ''/'' then ''/'' else []))
        = segs @ (if endsWith x ''/'' then [[]] else [])"
      using split_on_append [of "CHR ''/''" p "[]"] by (simp add: split_p)
    then have "split_on (CHR ''/'') (normalize x)
        = (if a then [[]] else []) @ segs @ (if endsWith x ''/'' then [[]] else [])"
      by (simp add: n)
    then have "normalizeSegments (\<not> a) (split_on (CHR ''/'') (normalize x))
        = normalizeSegments (\<not> a) segs"
      by (simp add: normalizeSegments_empties)
    also have "\<dots> = segs"
      unfolding segs_def by (rule normalizeSegments_idem)
    finally have "lexicalForm (normalize x) = (a, segs)"
      by (simp add: lexicalForm_def abs)
    then show ?thesis
      by (simp add: form)
  qed
qed

lemma joinPaths_nonempty_dir:
  "d \<noteq> [] \<Longrightarrow> joinPaths d s = normalize (if s = [] then d else d @ ''/'' @ s)"
  by (simp add: joinPaths_def)

lemma lexicalForm_joinPaths:
  assumes "d \<noteq> []" and "''..'' \<notin> set (split_on (CHR ''/'') s)"
  shows "lexicalForm (joinPaths d s)
     = (isAbsolute d,
        normalizeSegments (\<not> isAbsolute d) (split_on (CHR ''/'') d)
          @ filter keepSegment (split_on (CHR ''/'') s))"
proof (cases "s = []")
  case True
  then show ?thesis
    using assms(1)
    by (simp add: joinPaths_nonempty_dir lexicalForm_normalize,
        simp add: lexicalForm_def keepSegment_def)
next
  case False
  have abs: "isAbsolute (d @ CHR ''/'' # s) = isAbsolute d"
    using assms(1) by (cases d) (simp_all add: isAbsolute_def startsWith_def)
  have "split_on (CHR ''/'') (d @ ''/'' @ s) = split_on (CHR ''/'') d @ split_on (CHR ''/'') s"
    using split_on_append [of "CHR ''/''" d s] by simp
  then have "normalizeSegments (\<not> isAbsolute d) (split_on (CHR ''/'') (d @ ''/'' @ s))
      = normalizeSegments (\<not> isAbsolute d) (split_on (CHR ''/'') d)
          @ filter keepSegment (split_on (CHR ''/'') s)"
    using assms(2) by (simp add: normalizeSegments_def normalize_without_dotdot)
  then show ?thesis
    using False assms(1)
    by (simp add: joinPaths_nonempty_dir lexicalForm_normalize, simp add: lexicalForm_def abs)
qed

text \<open>
  For every static mapping whose directory is not the empty string, and every requested path, the sanitised path (prefix removed, leading slash added when
  absent, every slash followed by two or more dots deleted with its dots) has no \<open>..\<close>
  segment, and joined under the mapped directory it lies lexically inside that directory.
\<close>

theorem static_path_stays_inside:
  assumes "staticDir \<noteq> []"
  shows "lexicallyInside staticDir (joinPaths staticDir (sanitize route path))
    \<and> \<not> hasDotDot (sanitize route path)
    \<and> ''..'' \<notin> set (split_on (CHR ''/'') (sanitize route path))"
proof -
  have no: "''..'' \<notin> set (split_on (CHR ''/'') (sanitize route path))"
    using sanitize_segments by blast
  have "\<not> hasDotDot (sanitize route path)"
    by (simp add: sanitize_def Let_def strip_no_dotdot)
  moreover have "lexicallyInside staticDir (joinPaths staticDir (sanitize route path))"
    using no
    by (simp add: lexicallyInside_def lexicalForm_joinPaths [OF assms no],
        simp add: lexicalForm_def)
  ultimately show ?thesis
    using no by simp
qed

text \<open>The statement at the mapping of \<open>/assets/\<close> to \<open>./site-assets\<close> and a path with two
  \<open>..\<close> segments.\<close>

theorem static_path_stays_inside_example:
  "''./site-assets'' \<noteq> []
   \<and> sanitize ''/assets/'' ''/assets/../../etc/passwd'' = ''/etc/passwd''
   \<and> joinPaths ''./site-assets'' (sanitize ''/assets/'' ''/assets/../../etc/passwd'')
        = ''site-assets/etc/passwd''
   \<and> lexicallyInside ''./site-assets''
        (joinPaths ''./site-assets'' (sanitize ''/assets/'' ''/assets/../../etc/passwd''))"
  using static_path_stays_inside [of "''./site-assets''" "''/assets/''" "''/assets/../../etc/passwd''"]
  by (simp add: sanitize_def substringFrom_def startsWith_def endsWith_def joinPaths_def
      normalize_def normalizeSegments_def normalizeStep_def isAbsolute_def)

lemmas decode_eval = classify_def decode_def decodeChunks_def utf8Encode_def encodeCodePoint_def

text \<open>
  Claim C3 fails on the code for a mapping to the empty directory string, which \<open>mapStatic\<close>
  accepts: \<open>join\<close> drops the empty argument, so the sanitised path stays absolute.  The
  request for \<open>/.../etc/passwd\<close> is answered with the file \<open>/etc/passwd\<close>, outside the working
  directory \<open>/srv/site\<close>, while \<open>build\<close> rejects the same mapping with \<open>ENOENT\<close>.
\<close>

theorem static_path_empty_directory_escape:
  "staticMappings rootMappedSite = [(''/'', [])]
   \<and> requestPath ''http://localhost:3000/.../etc/passwd'' = ''/.../etc/passwd''
   \<and> startsWith ''/.../etc/passwd'' ''/''
   \<and> hasDotDot ''/.../etc/passwd''
   \<and> sanitize ''/'' ''/.../etc/passwd'' = ''/etc/passwd''
   \<and> joinPaths [] (sanitize ''/'' ''/.../etc/passwd'') = ''/etc/passwd''
   \<and> \<not> lexicallyInside [] (joinPaths [] (sanitize ''/'' ''/.../etc/passwd''))
   \<and> cwd passwdWorld = [''srv'', ''site'']
   \<and> resolvePath passwdWorld ''/etc/passwd'' = [''etc'', ''passwd'']
   \<and> stat passwdWorld ''/etc/passwd'' = Inr (File (utf8Encode (ascii ''root'')))
   \<and> reqHandler noModules rootMappedSite passwdWorld ''http://localhost:3000/.../etc/passwd''
        = Inr \<lparr>status = 200, body = FileBody ''/etc/passwd''\<rparr>
   \<and> stat passwdWorld [] = Inl (SystemError ENOENT)
   \<and> map_option fst (build 0 noModules rootMappedSite ''out'' True passwdWorld)
        = Some (Some (SystemError ENOENT))"
proof -
  have m: "staticMappings rootMappedSite = [(''/'', [])]" "routes rootMappedSite = []"
    "indexFilename rootMappedSite = ''index.html''"
    by (simp_all add: rootMappedSite_def mapStatic_def newSiteGenerator_def startsWith_def endsWith_def)
  have p: "requestPath ''http://localhost:3000/.../etc/passwd'' = ''/.../etc/passwd''"
    by (simp add: eval_defs)
  have sw: "startsWith ''/.../etc/passwd'' ''/''" "hasDotDot ''/.../etc/passwd''"
    by (simp_all add: startsWith_def)
  have s: "sanitize ''/'' ''/.../etc/passwd'' = ''/etc/passwd''"
    by (simp add: sanitize_def substringFrom_def startsWith_def)
  have j: "joinPaths [] ''/etc/passwd'' = ''/etc/passwd''"
    by (simp add: platform_defs startsWith_def endsWith_def)
  have l: "\<not> lexicallyInside [] ''/etc/passwd''"
    by (simp add: lexicallyInside_def lexicalForm_def isAbsolute_def startsWith_def
        normalizeSegments_def normalizeStep_def)
  have r: "cwd passwdWorld = [''srv'', ''site'']"
    "resolvePath passwdWorld ''/etc/passwd'' = [''etc'', ''passwd'']"
    by (simp_all add: passwdWorld_def platform_defs startsWith_def)
  have st: "stat passwdWorld ''/etc/passwd'' = Inr (File (utf8Encode (ascii ''root'')))"
    by (simp add: stat_def r, simp add: passwdWorld_def endsWith_def)
  have mr: "matchRoute rootMappedSite ''/.../etc/passwd'' = None"
    by (simp add: matchRoute_def m routeCandidates_def map_get_def endsWith_def)
  have h: "reqHandler noModules rootMappedSite passwdWorld ''http://localhost:3000/.../etc/passwd''
        = Inr \<lparr>status = 200, body = FileBody ''/etc/passwd''\<rparr>"
    by (simp add: reqHandler_def handlePath_def p mr m sw s j st)
  have e: "stat w [] = Inl (SystemError ENOENT)" for w
    by (simp add: stat_def)
  have pr: "prepareOutDir ''out'' True passwdWorld = mkdirRecursive passwdWorld ''out''"
    by (simp add: prepareOutDir_def exists_def passwdWorld_def platform_defs startsWith_def endsWith_def)
  have mk: "\<exists>w1. mkdirRecursive passwdWorld ''out'' = Inr w1"
    by (simp add: mkdirRecursive_def passwdWorld_def platform_defs startsWith_def)
  then obtain w1 where w1: "mkdirRecursive passwdWorld ''out'' = Inr w1" ..
  have b: "map_option fst (build 0 noModules rootMappedSite ''out'' True passwdWorld)
        = Some (Some (SystemError ENOENT))"
    by (simp add: build_def pr w1 m copyRecursive_def e)
  show ?thesis
    using m p sw s j l r st h e [of passwdWorld] b by simp
qed

subsection \<open>The file system operations keep the console and the working directory\<close>

lemma sameProcess_refl [simp]: "sameProcess w w"
  by (simp add: sameProcess_def)


lemma resolvePath_cwd: "cwd w' = cwd w \<Longrightarrow> resolvePath w' path = resolvePath w path"
  by (simp add: resolvePath_def)

lemma mkdirRecursive_same: "mkdirRecursive w path = Inr w' \<Longrightarrow> sameProcess w w'"
  by (auto simp: mkdirRecursive_def sameProcess_def split: sum.splits if_splits)


lemma writeFile_same: "writeFile w path content = Inr w' \<Longrightarrow> sameProcess w w'"
  by (auto simp: writeFile_def sameProcess_def Let_def split: sum.splits node.splits option.splits if_splits)








subsection \<open>Looking up after writing\<close>

lemma lookupFrom_extend:
  assumes "\<forall>k n. map_of fs k = Some n \<longrightarrow> map_of fs' k = Some n"
  shows "lookupFrom fs d rest = Inr n \<Longrightarrow> lookupFrom fs' d rest = Inr n"
proof (induction rest arbitrary: d)
  case Nil
  then show ?case by simp
next
  case (Cons s rest)
  from Cons.prems obtain m where m: "map_of fs (d @ [s]) = Some m"
    by (cases "map_of fs (d @ [s])") auto
  with assms have m': "map_of fs' (d @ [s]) = Some m"
    by simp
  show ?case
  proof (cases m)
    case (File c)
    with Cons.prems m m' show ?thesis by (simp split: if_splits)
  next
    case Dir
    with Cons.prems m have "lookupFrom fs (d @ [s]) rest = Inr n"
      by simp
    then have "lookupFrom fs' (d @ [s]) rest = Inr n"
      by (rule Cons.IH)
    with Dir m' show ?thesis by simp
  qed
qed

lemma mkdirFrom_extend:
  "mkdirFrom fs d rest = Inr fs' \<Longrightarrow> map_of fs k = Some n \<Longrightarrow> map_of fs' k = Some n"
proof (induction rest arbitrary: fs d)
  case Nil
  then show ?case by simp
next
  case (Cons s rest)
  show ?case
  proof (cases "map_of fs (d @ [s])")
    case None
    with Cons.prems(1) have "mkdirFrom ((d @ [s], Dir) # fs) (d @ [s]) rest = Inr fs'"
      by simp
    moreover from None Cons.prems(2) have "map_of ((d @ [s], Dir) # fs) k = Some n"
      by auto
    ultimately show ?thesis by (rule Cons.IH)
  next
    case (Some m)
    with Cons.prems show ?thesis
      by (cases m) (auto dest: Cons.IH)
  qed
qed

lemma mkdirFrom_dir: "mkdirFrom fs d rest = Inr fs' \<Longrightarrow> lookupFrom fs' d rest = Inr Dir"
proof (induction rest arbitrary: fs d)
  case Nil
  then show ?case by simp
next
  case (Cons s rest)
  show ?case
  proof (cases "map_of fs (d @ [s])")
    case None
    with Cons.prems have mk: "mkdirFrom ((d @ [s], Dir) # fs) (d @ [s]) rest = Inr fs'"
      by simp
    then have "lookupFrom fs' (d @ [s]) rest = Inr Dir"
      by (rule Cons.IH)
    moreover have "map_of fs' (d @ [s]) = Some Dir"
      using mk by (rule mkdirFrom_extend) simp
    ultimately show ?thesis by simp
  next
    case (Some m)
    show ?thesis
    proof (cases m)
      case (File c)
      with Some Cons.prems show ?thesis by simp
    next
      case Dir
      with Some Cons.prems have mk: "mkdirFrom fs (d @ [s]) rest = Inr fs'"
        by simp
      then have "lookupFrom fs' (d @ [s]) rest = Inr Dir"
        by (rule Cons.IH)
      moreover have "map_of fs' (d @ [s]) = Some Dir"
        using mk Some Dir by (auto intro: mkdirFrom_extend)
      ultimately show ?thesis by simp
    qed
  qed
qed

lemma lookupFrom_snoc:
  "lookupFrom fs d xs = Inr Dir \<Longrightarrow>
     lookupFrom fs d (xs @ [y])
       = (case map_of fs (d @ xs @ [y]) of None \<Rightarrow> Inl ENOENT | Some n \<Rightarrow> Inr n)"
proof (induction xs arbitrary: d)
  case Nil
  show ?case by (simp split: option.splits node.splits)
next
  case (Cons x xs)
  from Cons.prems have "map_of fs (d @ [x]) = Some Dir \<and> lookupFrom fs (d @ [x]) xs = Inr Dir"
    by (auto split: option.splits node.splits if_splits)
  then show ?case
    using Cons.IH [of "d @ [x]"] by simp
qed

lemma lookupFrom_update_longer:
  "length (d @ xs) < length p \<Longrightarrow> lookupFrom ((p, n) # fs) d xs = lookupFrom fs d xs"
proof (induction xs arbitrary: d)
  case Nil
  show ?case by simp
next
  case (Cons x xs)
  then have "d @ [x] \<noteq> p" and "length ((d @ [x]) @ xs) < length p"
    by auto
  then show ?case
    using Cons.IH [of "d @ [x]"] by (simp split: option.splits node.splits)
qed

lemma lookupFrom_update_other:
  "lookupFrom fs d rest = Inr (File c) \<Longrightarrow> map_of fs p \<noteq> Some Dir \<Longrightarrow> p \<noteq> d @ rest
     \<Longrightarrow> lookupFrom ((p, n) # fs) d rest = Inr (File c)"
proof (induction rest arbitrary: d)
  case Nil
  then show ?case by simp
next
  case (Cons s rest)
  from Cons.prems(1) obtain m where m: "map_of fs (d @ [s]) = Some m"
    by (cases "map_of fs (d @ [s])") auto
  show ?case
  proof (cases m)
    case (File c')
    with Cons.prems m show ?thesis
      by (auto split: if_splits)
  next
    case Dir
    with m Cons.prems(2) have ne: "p \<noteq> d @ [s]"
      by auto
    from Dir m Cons.prems(1) have "lookupFrom fs (d @ [s]) rest = Inr (File c)"
      by simp
    then have "lookupFrom ((p, n) # fs) (d @ [s]) rest = Inr (File c)"
      using Cons.prems(2,3) by (intro Cons.IH) auto
    with ne m Dir show ?thesis by simp
  qed
qed

lemma map_of_replace:
  "map_of ((p, n) # filter (\<lambda>entry. fst entry \<noteq> p) fs) = map_of ((p, n) # fs)"
proof
  fix k
  have "map_of (filter (\<lambda>entry. fst entry \<noteq> p) fs) k = (if k = p then None else map_of fs k)"
    by (induction fs) auto
  then show "map_of ((p, n) # filter (\<lambda>entry. fst entry \<noteq> p) fs) k = map_of ((p, n) # fs) k"
    by simp
qed

lemma lookupFrom_map_of:
  "map_of fs = map_of fs' \<Longrightarrow> lookupFrom fs d rest = lookupFrom fs' d rest"
  by (induction rest arbitrary: d) (simp_all split: option.splits node.splits)

lemma lookupFrom_replace:
  "lookupFrom ((p, n) # filter (\<lambda>entry. fst entry \<noteq> p) fs) d rest = lookupFrom ((p, n) # fs) d rest"
  using map_of_replace by (rule lookupFrom_map_of)

lemma writeFile_read:
  assumes "writeFile w path content = Inr w'"
  shows "lookupFrom (files w') [] (resolvePath w path) = Inr (File content)
    \<and> \<not> endsWith path ''/'' \<and> path \<noteq> []"
proof -
  define p where "p = resolvePath w path"
  from assms obtain fs where p: "p \<noteq> []" and slash: "\<not> endsWith path ''/''"
    and ne: "path \<noteq> []"
    and mk: "mkdirFrom (files w) [] (butlast p) = Inr fs"
    and w': "files w' = (p, File content) # filter (\<lambda>entry. fst entry \<noteq> p) fs"
    by (auto simp: writeFile_def Let_def p_def split: if_splits sum.splits option.splits node.splits)
  have "lookupFrom fs [] (butlast p) = Inr Dir"
    using mk by (rule mkdirFrom_dir)
  moreover have "length ([] @ butlast p) < length p"
    using p by simp
  ultimately have "lookupFrom ((p, File content) # fs) [] (butlast p) = Inr Dir"
    by (simp only: lookupFrom_update_longer)
  from lookupFrom_snoc [OF this, of "last p"]
  have "lookupFrom (files w') [] p = Inr (File content)"
    using p by (simp add: w' lookupFrom_replace)
  with slash ne show ?thesis
    by (simp add: p_def)
qed

lemma writeFile_frame:
  assumes "writeFile w path content = Inr w'"
    and "lookupFrom (files w) [] q = Inr (File c)" and "q \<noteq> resolvePath w path"
  shows "lookupFrom (files w') [] q = Inr (File c)"
proof -
  define p where "p = resolvePath w path"
  from assms(1) obtain fs where mk: "mkdirFrom (files w) [] (butlast p) = Inr fs"
    and nd: "map_of fs p \<noteq> Some Dir"
    and w': "files w' = (p, File content) # filter (\<lambda>entry. fst entry \<noteq> p) fs"
    by (auto simp: writeFile_def Let_def p_def split: if_splits sum.splits option.splits node.splits)
  have ext: "\<forall>k n. map_of (files w) k = Some n \<longrightarrow> map_of fs k = Some n"
    using mkdirFrom_extend [OF mk] by blast
  have "lookupFrom fs [] q = Inr (File c)"
    using ext assms(2) by (rule lookupFrom_extend)
  then show ?thesis
    using nd assms(3) by (simp add: w' p_def lookupFrom_replace lookupFrom_update_other)
qed

lemma mkdirRecursive_frame:
  assumes "mkdirRecursive w path = Inr w'" and "lookupFrom (files w) [] q = Inr n"
  shows "lookupFrom (files w') [] q = Inr n"
proof -
  from assms(1) obtain fs where mk: "mkdirFrom (files w) [] (resolvePath w path) = Inr fs"
    and w': "files w' = fs"
    by (auto simp: mkdirRecursive_def split: sum.splits if_splits)
  have ext: "\<forall>k n. map_of (files w) k = Some n \<longrightarrow> map_of fs k = Some n"
    using mkdirFrom_extend [OF mk] by blast
  show ?thesis
    unfolding w' using ext assms(2) by (rule lookupFrom_extend)
qed

subsection \<open>The loop over the routes\<close>

lemma consoleLog_simps [simp]:
  "console (consoleLog w line) = console w @ [line]"
  "cwd (consoleLog w line) = cwd w"
  "files (consoleLog w line) = files w"
  by (simp_all add: consoleLog_def)

lemma resolvePath_consoleLog [simp]: "resolvePath (consoleLog w line) path = resolvePath w path"
  by (simp add: resolvePath_def)

lemma buildRoutes_step:
  assumes "buildRoutes importModule indexName outDir ((route, renderer) # rest) w = (None, w')"
  shows "\<exists>buf w2 w3.
      buildResult (invoke importModule renderer) = Inr buf
      \<and> mkdirRecursive (consoleLog w (renderingLine (outFileName indexName outDir route)))
            (dirname (outFileName indexName outDir route)) = Inr w2
      \<and> writeFile w2 (outFileName indexName outDir route) (bufferBytes buf) = Inr w3
      \<and> buildRoutes importModule indexName outDir rest w3 = (None, w')"
  using assms by (auto simp: Let_def split: sum.splits)

lemma buildRoutes_console:
  "buildRoutes importModule indexName outDir rs w = (res, w') \<Longrightarrow>
     cwd w' = cwd w
     \<and> (\<exists>m \<le> length rs.
          console w' = console w
            @ map (\<lambda>r. renderingLine (outFileName indexName outDir (fst r))) (take m rs)
          \<and> (res = None \<longrightarrow> m = length rs))"
proof (induction rs arbitrary: w)
  case Nil
  then show ?case by simp
next
  case (Cons r rs)
  obtain route renderer where r: "r = (route, renderer)"
    by (cases r)
  let ?f = "outFileName indexName outDir route"
  let ?w1 = "consoleLog w (renderingLine ?f)"
  let ?line = "\<lambda>r. renderingLine (outFileName indexName outDir (fst r))"
  show ?case
  proof (cases "buildResult (invoke importModule renderer)")
    case (Inl e)
    with Cons.prems have "w' = w" "res = Some e"
      by (simp_all add: r)
    then show ?thesis
      by (intro conjI exI [of _ 0]) simp_all
  next
    case (Inr buf)
    show ?thesis
    proof (cases "mkdirRecursive ?w1 (dirname ?f)")
      case (Inl e)
      with Cons.prems Inr have "w' = ?w1" "res = Some e"
        by (simp_all add: r Let_def)
      then show ?thesis
        by (intro conjI exI [of _ 1]) (simp_all add: r)
    next
      case mk: (Inr w2)
      have s2: "sameProcess ?w1 w2"
        using mk by (rule mkdirRecursive_same)
      show ?thesis
      proof (cases "writeFile w2 ?f (bufferBytes buf)")
        case (Inl e)
        with Cons.prems Inr mk have "w' = w2" "res = Some e"
          by (simp_all add: r Let_def)
        with s2 show ?thesis
          by (intro conjI exI [of _ 1]) (simp_all add: r sameProcess_def)
      next
        case wr: (Inr w3)
        have s3: "sameProcess w2 w3"
          using wr by (rule writeFile_same)
        from Cons.prems Inr mk wr
        have "buildRoutes importModule indexName outDir rs w3 = (res, w')"
          by (simp add: r Let_def)
        from Cons.IH [OF this] obtain m where m: "m \<le> length rs"
          "console w' = console w3 @ map ?line (take m rs)" "res = None \<longrightarrow> m = length rs"
          and c: "cwd w' = cwd w3"
          by blast
        from s2 s3 have "console w3 = console w @ [renderingLine ?f]" "cwd w3 = cwd w"
          by (simp_all add: sameProcess_def)
        with m c show ?thesis
          by (intro conjI exI [of _ "Suc m"]) (simp_all add: r)
      qed
    qed
  qed
qed

lemma buildRoutes_frame:
  "buildRoutes importModule indexName outDir rs w = (None, w') \<Longrightarrow>
   lookupFrom (files w) [] q = Inr (File c) \<Longrightarrow>
   \<forall>r \<in> set rs. resolvePath w (outFileName indexName outDir (fst r)) \<noteq> q \<Longrightarrow>
   lookupFrom (files w') [] q = Inr (File c)"
proof (induction rs arbitrary: w)
  case Nil
  then show ?case by simp
next
  case (Cons r rs)
  obtain route renderer where r: "r = (route, renderer)"
    by (cases r)
  let ?f = "outFileName indexName outDir route"
  from buildRoutes_step [OF Cons.prems(1) [unfolded r]] obtain buf w2 w3 where
    mk: "mkdirRecursive (consoleLog w (renderingLine ?f)) (dirname ?f) = Inr w2"
    and wr: "writeFile w2 ?f (bufferBytes buf) = Inr w3"
    and rest: "buildRoutes importModule indexName outDir rs w3 = (None, w')"
    by blast
  have c2: "cwd w2 = cwd w"
    using mkdirRecursive_same [OF mk] by (simp add: sameProcess_def)
  have c3: "cwd w3 = cwd w"
    using writeFile_same [OF wr] c2 by (simp add: sameProcess_def)
  have "lookupFrom (files w2) [] q = Inr (File c)"
    using mk by (rule mkdirRecursive_frame) (simp add: Cons.prems(2))
  moreover have "q \<noteq> resolvePath w2 ?f"
    using Cons.prems(3) by (auto simp: r resolvePath_cwd [OF c2])
  ultimately have "lookupFrom (files w3) [] q = Inr (File c)"
    by (rule writeFile_frame [OF wr])
  moreover have "\<forall>r \<in> set rs. resolvePath w3 (outFileName indexName outDir (fst r)) \<noteq> q"
    using Cons.prems(3) by (simp add: resolvePath_cwd [OF c3])
  ultimately show ?case
    by (rule Cons.IH [OF rest])
qed

lemma buildRoutes_last_writer:
  "buildRoutes importModule indexName outDir rs w = (None, w') \<Longrightarrow> i < length rs \<Longrightarrow>
   \<forall>j. i < j \<and> j < length rs \<longrightarrow>
       resolvePath w (outFileName indexName outDir (fst (rs ! j)))
         \<noteq> resolvePath w (outFileName indexName outDir (fst (rs ! i))) \<Longrightarrow>
   \<exists>buf. buildResult (invoke importModule (snd (rs ! i))) = Inr buf
     \<and> stat w' (outFileName indexName outDir (fst (rs ! i))) = Inr (File (bufferBytes buf))"
proof (induction rs arbitrary: w i)
  case Nil
  then show ?case by simp
next
  case (Cons r rs)
  obtain route renderer where r: "r = (route, renderer)"
    by (cases r)
  let ?f = "outFileName indexName outDir route"
  from buildRoutes_step [OF Cons.prems(1) [unfolded r]] obtain buf w2 w3 where
    res: "buildResult (invoke importModule renderer) = Inr buf"
    and mk: "mkdirRecursive (consoleLog w (renderingLine ?f)) (dirname ?f) = Inr w2"
    and wr: "writeFile w2 ?f (bufferBytes buf) = Inr w3"
    and rest: "buildRoutes importModule indexName outDir rs w3 = (None, w')"
    by blast
  have c2: "cwd w2 = cwd w"
    using mkdirRecursive_same [OF mk] by (simp add: sameProcess_def)
  have c3: "cwd w3 = cwd w"
    using writeFile_same [OF wr] c2 by (simp add: sameProcess_def)
  have c': "cwd w' = cwd w"
    using buildRoutes_console [OF rest] c3 by simp
  show ?case
  proof (cases i)
    case 0
    have written: "lookupFrom (files w3) [] (resolvePath w ?f) = Inr (File (bufferBytes buf))"
      and slash: "\<not> endsWith ?f ''/''" and ne: "?f \<noteq> []"
      using writeFile_read [OF wr] by (simp_all add: resolvePath_cwd [OF c2])
    have "\<forall>r \<in> set rs. resolvePath w3 (outFileName indexName outDir (fst r)) \<noteq> resolvePath w ?f"
    proof
      fix r' assume "r' \<in> set rs"
      then obtain j where "j < length rs" "rs ! j = r'"
        by (auto simp: in_set_conv_nth)
      with Cons.prems(3) [rule_format, of "Suc j"] 0 show
        "resolvePath w3 (outFileName indexName outDir (fst r')) \<noteq> resolvePath w ?f"
        by (simp add: r resolvePath_cwd [OF c3])
    qed
    with rest written have "lookupFrom (files w') [] (resolvePath w ?f) = Inr (File (bufferBytes buf))"
      by (rule buildRoutes_frame)
    with slash ne have "stat w' ?f = Inr (File (bufferBytes buf))"
      by (simp add: stat_def resolvePath_cwd [OF c'])
    with res 0 show ?thesis
      by (simp add: r)
  next
    case (Suc i')
    with Cons.prems(2) have "i' < length rs"
      by simp
    moreover have "\<forall>j. i' < j \<and> j < length rs \<longrightarrow>
       resolvePath w3 (outFileName indexName outDir (fst (rs ! j)))
         \<noteq> resolvePath w3 (outFileName indexName outDir (fst (rs ! i')))"
    proof (intro allI impI)
      fix j assume "i' < j \<and> j < length rs"
      with Cons.prems(3) [rule_format, of "Suc j"] Suc show
        "resolvePath w3 (outFileName indexName outDir (fst (rs ! j)))
           \<noteq> resolvePath w3 (outFileName indexName outDir (fst (rs ! i')))"
        by (simp add: resolvePath_cwd [OF c3])
    qed
    ultimately show ?thesis
      using Cons.IH [OF rest, of i'] Suc by simp
  qed
qed




subsection \<open>Trailing slashes of joined paths\<close>

lemma joinSegments_last:
  "segs \<noteq> [] \<Longrightarrow> last segs \<noteq> [] \<Longrightarrow>
     joinSegments segs \<noteq> [] \<and> last (joinSegments segs) = last (last segs)"
  by (induction segs rule: joinSegments.induct) auto

lemma normalize_trailing:
  assumes "endsWith x ''/''"
  shows "endsWith (normalize x) ''/''"
proof -
  from assms have "x \<noteq> []"
    by (auto simp: endsWith_def)
  with assms show ?thesis
    by (simp add: normalize_def Let_def endsWith_def)
qed

lemma normalize_no_trailing:
  assumes "x \<noteq> []" and "\<not> endsWith x ''/''" and "normalize x \<noteq> ''/''"
  shows "\<not> endsWith (normalize x) ''/''"
proof -
  define segs where "segs = normalizeSegments (\<not> isAbsolute x) (split_on (CHR ''/'') x)"
  show ?thesis
  proof (cases "joinSegments segs = []")
    case True
    with assms show ?thesis
      by (auto simp: normalize_def Let_def segs_def endsWith_def split: if_splits)
  next
    case False
    then have ne: "segs \<noteq> []"
      by auto
    have "normalStack (\<not> isAbsolute x) segs"
      unfolding segs_def by (rule normalStack_normalizeSegments)
    with ne have l: "last segs \<noteq> []"
      by (auto simp: normalStack_def)
    have "CHR ''/'' \<notin> set (last segs)"
      using ne normalizeSegments_sep_free [of "last segs" "\<not> isAbsolute x" "CHR ''/''" x]
      by (simp add: segs_def)
    with l have "last (last segs) \<noteq> CHR ''/''"
      using last_in_set by metis
    with joinSegments_last [OF ne l] have "last (joinSegments segs) \<noteq> CHR ''/''"
      by simp
    moreover have "normalize x = (if isAbsolute x then ''/'' else []) @ joinSegments segs"
      using assms(1,2) False by (simp add: normalize_def Let_def segs_def)
    ultimately show ?thesis
      using False by (simp add: endsWith_snoc)
  qed
qed

lemma joinPaths_route:
  "route \<noteq> [] \<Longrightarrow>
     joinPaths outDir route = normalize (if outDir = [] then route else outDir @ ''/'' @ route)"
  by (cases "outDir = []") (simp_all add: joinPaths_def)

lemma joinPaths_trailing:
  assumes "endsWith route ''/''"
  shows "endsWith (joinPaths outDir route) ''/''"
proof -
  from assms have ne: "route \<noteq> []"
    by (auto simp: endsWith_def)
  have "endsWith (if outDir = [] then route else outDir @ ''/'' @ route) ''/''"
    using assms ne by (auto simp: endsWith_snoc)
  then have "endsWith (normalize (if outDir = [] then route else outDir @ ''/'' @ route)) ''/''"
    by (rule normalize_trailing)
  then show ?thesis
    unfolding joinPaths_route [OF ne] .
qed

lemma joinPaths_no_trailing:
  assumes "route \<noteq> []" and "\<not> endsWith route ''/''" and "joinPaths outDir route \<noteq> ''/''"
  shows "\<not> endsWith (joinPaths outDir route) ''/''"
proof -
  let ?j = "if outDir = [] then route else outDir @ ''/'' @ route"
  have j: "joinPaths outDir route = normalize ?j"
    using assms(1) by (rule joinPaths_route)
  have "?j \<noteq> []" "\<not> endsWith ?j ''/''"
    using assms(1,2) by (auto simp: endsWith_snoc)
  then have "\<not> endsWith (normalize ?j) ''/''"
    using assms(3) unfolding j by (rule normalize_no_trailing)
  then show ?thesis
    unfolding j .
qed

subsection \<open>The files the loop over the routes adds\<close>

lemma mkdirFrom_files:
  "mkdirFrom fs d rest = Inr fs' \<Longrightarrow> map_of fs' q = Some (File c) \<Longrightarrow> map_of fs q = Some (File c)"
proof (induction rest arbitrary: fs d)
  case Nil
  then show ?case by simp
next
  case (Cons s rest)
  show ?case
  proof (cases "map_of fs (d @ [s])")
    case None
    with Cons.prems(1) have "mkdirFrom ((d @ [s], Dir) # fs) (d @ [s]) rest = Inr fs'"
      by simp
    from Cons.IH [OF this Cons.prems(2)] show ?thesis
      by (auto split: if_splits)
  next
    case (Some m)
    with Cons.prems show ?thesis
      by (cases m) (auto dest: Cons.IH)
  qed
qed

lemma mkdirRecursive_files:
  "mkdirRecursive w path = Inr w' \<Longrightarrow> map_of (files w') q = Some (File c)
     \<Longrightarrow> map_of (files w) q = Some (File c)"
  by (auto simp: mkdirRecursive_def split: sum.splits if_splits dest: mkdirFrom_files)

lemma writeFile_files:
  assumes "writeFile w path content = Inr w'" and "map_of (files w') q = Some (File c)"
  shows "map_of (files w) q = Some (File c) \<or> q = resolvePath w path"
proof -
  define p where "p = resolvePath w path"
  from assms(1) obtain fs where mk: "mkdirFrom (files w) [] (butlast p) = Inr fs"
    and w': "files w' = (p, File content) # filter (\<lambda>entry. fst entry \<noteq> p) fs"
    by (auto simp: writeFile_def Let_def p_def split: if_splits sum.splits option.splits node.splits)
  from assms(2) have "map_of ((p, File content) # fs) q = Some (File c)"
    by (simp only: w' map_of_replace)
  then have "q = p \<or> map_of fs q = Some (File c)"
    by (auto split: if_splits)
  then show ?thesis
    using mkdirFrom_files [OF mk] by (auto simp: p_def)
qed

lemma buildRoutes_files:
  "buildRoutes importModule indexName outDir rs w = (res, w') \<Longrightarrow>
   map_of (files w') q = Some (File c) \<Longrightarrow>
   map_of (files w) q = Some (File c)
     \<or> (\<exists>r \<in> set rs. q = resolvePath w (outFileName indexName outDir (fst r)))"
proof (induction rs arbitrary: w)
  case Nil
  then show ?case by simp
next
  case (Cons r rs)
  obtain route renderer where r: "r = (route, renderer)"
    by (cases r)
  let ?f = "outFileName indexName outDir route"
  let ?w1 = "consoleLog w (renderingLine ?f)"
  show ?case
  proof (cases "buildResult (invoke importModule renderer)")
    case (Inl e)
    with Cons.prems show ?thesis by (simp add: r)
  next
    case (Inr buf)
    show ?thesis
    proof (cases "mkdirRecursive ?w1 (dirname ?f)")
      case (Inl e)
      with Cons.prems(1) Inr have "w' = ?w1"
        by (simp add: r Let_def)
      with Cons.prems(2) show ?thesis by simp
    next
      case mk: (Inr w2)
      have f2: "map_of (files w2) q = Some (File c) \<Longrightarrow> map_of (files w) q = Some (File c)"
        using mkdirRecursive_files [OF mk] by simp
      have c2: "cwd w2 = cwd w"
        using mkdirRecursive_same [OF mk] by (simp add: sameProcess_def)
      show ?thesis
      proof (cases "writeFile w2 ?f (bufferBytes buf)")
        case (Inl e)
        with Cons.prems(1) Inr mk have "w' = w2"
          by (simp add: r Let_def)
        with Cons.prems(2) f2 show ?thesis by simp
      next
        case wr: (Inr w3)
        have c3: "cwd w3 = cwd w"
          using writeFile_same [OF wr] c2 by (simp add: sameProcess_def)
        from Cons.prems Inr mk wr
        have "buildRoutes importModule indexName outDir rs w3 = (res, w')"
          by (simp add: r Let_def)
        from Cons.IH [OF this Cons.prems(2)]
        have "map_of (files w3) q = Some (File c)
            \<or> (\<exists>r \<in> set rs. q = resolvePath w (outFileName indexName outDir (fst r)))"
          by (simp add: resolvePath_cwd [OF c3])
        then show ?thesis
        proof
          assume "map_of (files w3) q = Some (File c)"
          from writeFile_files [OF wr this] f2 show ?thesis
            by (auto simp: r resolvePath_cwd [OF c2])
        next
          assume "\<exists>r \<in> set rs. q = resolvePath w (outFileName indexName outDir (fst r))"
          then show ?thesis by auto
        qed
      qed
    qed
  qed
qed

text \<open>
  Claim C5, as amended.  The output file of a route is the output directory joined with the
  route key, with the index filename appended exactly when that joined path ends in a
  slash.  It does whenever the route key ends in a slash; for a key that is not empty and
  does not end in a slash it does not, unless the joined path is the root.  After the loop
  over the routes has succeeded, every route that no later route overwrites has its bytes
  in the file at that path, and every file that was not there before is the output file of
  a route.
\<close>

theorem out_file_location:
  "(endsWith route ''/'' \<longrightarrow>
      outFileName indexName outDir route = joinPaths outDir route @ indexName)
   \<and> (route \<noteq> [] \<and> \<not> endsWith route ''/'' \<and> joinPaths outDir route \<noteq> ''/'' \<longrightarrow>
        outFileName indexName outDir route = joinPaths outDir route)
   \<and> outFileName indexName outDir route
        = (if endsWith (joinPaths outDir route) ''/''
           then joinPaths outDir route @ indexName else joinPaths outDir route)
   \<and> (buildRoutes importModule indexName outDir rs w = (None, w') \<longrightarrow>
        (\<forall>i < length rs.
           (\<forall>j. i < j \<and> j < length rs \<longrightarrow>
              resolvePath w (outFileName indexName outDir (fst (rs ! j)))
                \<noteq> resolvePath w (outFileName indexName outDir (fst (rs ! i))))
           \<longrightarrow> (\<exists>buf. buildResult (invoke importModule (snd (rs ! i))) = Inr buf
                 \<and> stat w' (outFileName indexName outDir (fst (rs ! i)))
                     = Inr (File (bufferBytes buf))))
        \<and> (\<forall>q c. map_of (files w') q = Some (File c) \<longrightarrow>
              map_of (files w) q = Some (File c)
              \<or> (\<exists>r \<in> set rs. q = resolvePath w (outFileName indexName outDir (fst r)))))"
proof -
  have a: "outFileName indexName outDir route = joinPaths outDir route @ indexName"
    if "endsWith route ''/''"
    using joinPaths_trailing [OF that, of outDir] by (simp add: outFileName_def)
  have b: "outFileName indexName outDir route = joinPaths outDir route"
    if "route \<noteq> []" "\<not> endsWith route ''/''" "joinPaths outDir route \<noteq> ''/''"
    using joinPaths_no_trailing [OF that] by (simp add: outFileName_def)
  have c: "outFileName indexName outDir route
        = (if endsWith (joinPaths outDir route) ''/''
           then joinPaths outDir route @ indexName else joinPaths outDir route)"
    by (simp add: outFileName_def)
  have d: "\<exists>buf. buildResult (invoke importModule (snd (rs ! i))) = Inr buf
                 \<and> stat w' (outFileName indexName outDir (fst (rs ! i)))
                     = Inr (File (bufferBytes buf))"
    if "buildRoutes importModule indexName outDir rs w = (None, w')" "i < length rs"
      "\<forall>j. i < j \<and> j < length rs \<longrightarrow>
              resolvePath w (outFileName indexName outDir (fst (rs ! j)))
                \<noteq> resolvePath w (outFileName indexName outDir (fst (rs ! i)))" for i
    using that by (rule buildRoutes_last_writer)
  have e: "map_of (files w) q = Some (File c)
              \<or> (\<exists>r \<in> set rs. q = resolvePath w (outFileName indexName outDir (fst r)))"
    if "buildRoutes importModule indexName outDir rs w = (None, w')"
      "map_of (files w') q = Some (File c)" for q c
    using that by (rule buildRoutes_files)
  show ?thesis
    using a b c d e by blast
qed

text \<open>The statement at the routes \<open>/\<close> rendering \<open>A\<close> and \<open>/sub/\<close> rendering \<open>B\<close>, built into
  \<open>out\<close> with clearing: the files are \<open>out/index.html\<close> and \<open>out/sub/index.html\<close> and no other.\<close>

theorem out_file_location_witness:
  "endsWith ''/sub/'' ''/''
   \<and> outFileName ''index.html'' ''out'' ''/sub/'' = joinPaths ''out'' ''/sub/'' @ ''index.html''
   \<and> joinPaths ''out'' ''/sub/'' = ''out/sub/''
   \<and> ''/todo'' \<noteq> [] \<and> \<not> endsWith ''/todo'' ''/'' \<and> joinPaths ''out'' ''/todo'' \<noteq> ''/''
   \<and> outFileName ''index.html'' ''out'' ''/todo'' = ''out/todo''
   \<and> routes abSite = [(''/'', textRenderer ''A''), (''/sub/'', textRenderer ''B'')]
   \<and> files abPrepared = [([''out''], Dir)]
   \<and> buildRoutes noModules ''index.html'' ''out'' (routes abSite) abPrepared = (None, abBuilt)
   \<and> build 0 noModules abSite ''out'' True staleWorld
        = Some (None, consoleLog abBuilt (doneLine ''out''))
   \<and> stat abBuilt ''out/index.html'' = Inr (File (utf8Encode (ascii ''A'')))
   \<and> stat abBuilt ''out/sub/index.html'' = Inr (File (utf8Encode (ascii ''B'')))
   \<and> files abBuilt
        = [([''out'', ''sub'', ''index.html''], File (utf8Encode (ascii ''B''))),
           ([''out'', ''sub''], Dir),
           ([''out'', ''index.html''], File (utf8Encode (ascii ''A''))),
           ([''out''], Dir)]"
proof -
  have a: "endsWith ''/sub/'' ''/''" "joinPaths ''out'' ''/sub/'' = ''out/sub/''"
    "''/todo'' \<noteq> []" "\<not> endsWith ''/todo'' ''/''" "joinPaths ''out'' ''/todo'' \<noteq> ''/''"
    "joinPaths ''out'' ''/todo'' = ''out/todo''"
    by code_simp+
  have r: "routes abSite = [(''/'', textRenderer ''A''), (''/sub/'', textRenderer ''B'')]"
    by (simp add: abSite_def setRoute_def newSiteGenerator_def)
  have p: "files abPrepared = [([''out''], Dir)]"
    by code_simp
  have b: "buildRoutes noModules ''index.html'' ''out'' (routes abSite) abPrepared = (None, abBuilt)"
    by code_simp
  have full: "build 0 noModules abSite ''out'' True staleWorld
        = Some (None, consoleLog abBuilt (doneLine ''out''))"
    by code_simp
  have f: "files abBuilt
        = [([''out'', ''sub'', ''index.html''], File (utf8Encode (ascii ''B''))),
           ([''out'', ''sub''], Dir),
           ([''out'', ''index.html''], File (utf8Encode (ascii ''A''))),
           ([''out''], Dir)]"
    by code_simp
  have n: "outFileName ''index.html'' ''out'' ''/'' = ''out/index.html''"
    "outFileName ''index.html'' ''out'' ''/sub/'' = ''out/sub/index.html''"
    "resolvePath abPrepared ''out/sub/index.html'' \<noteq> resolvePath abPrepared ''out/index.html''"
    by code_simp+
  have v: "buildResult (invoke noModules (textRenderer ''A'')) = Inr (StringData (ascii ''A''))"
    "buildResult (invoke noModules (textRenderer ''B'')) = Inr (StringData (ascii ''B''))"
    by (simp_all add: buildResult_def textRenderer_def)
  note t1 = out_file_location [of "''/sub/''" "''index.html''" "''out''" noModules "routes abSite"
      abPrepared abBuilt]
  note t2 = out_file_location [of "''/todo''" "''index.html''" "''out''" noModules "routes abSite"
      abPrepared abBuilt]
  from t1 a have s1: "outFileName ''index.html'' ''out'' ''/sub/'' = joinPaths ''out'' ''/sub/'' @ ''index.html''"
    by blast
  from t2 a have s2: "outFileName ''index.html'' ''out'' ''/todo'' = ''out/todo''"
    by simp
  from t1 b have all: "\<forall>i < length (routes abSite).
           (\<forall>j. i < j \<and> j < length (routes abSite) \<longrightarrow>
              resolvePath abPrepared (outFileName ''index.html'' ''out'' (fst (routes abSite ! j)))
                \<noteq> resolvePath abPrepared (outFileName ''index.html'' ''out'' (fst (routes abSite ! i))))
           \<longrightarrow> (\<exists>buf. buildResult (invoke noModules (snd (routes abSite ! i))) = Inr buf
                 \<and> stat abBuilt (outFileName ''index.html'' ''out'' (fst (routes abSite ! i)))
                     = Inr (File (bufferBytes buf)))"
    by blast
  have len: "length (routes abSite) = 2"
    by (simp add: r)
  have h0: "\<forall>j. 0 < j \<and> j < length (routes abSite) \<longrightarrow>
      resolvePath abPrepared (outFileName ''index.html'' ''out'' (fst (routes abSite ! j)))
        \<noteq> resolvePath abPrepared (outFileName ''index.html'' ''out'' (fst (routes abSite ! 0)))"
  proof (intro allI impI)
    fix j assume "0 < j \<and> j < length (routes abSite)"
    then have "j = 1"
      by (simp add: len)
    then show "resolvePath abPrepared (outFileName ''index.html'' ''out'' (fst (routes abSite ! j)))
        \<noteq> resolvePath abPrepared (outFileName ''index.html'' ''out'' (fst (routes abSite ! 0)))"
      by (simp add: r n)
  qed
  have h1: "\<forall>j. 1 < j \<and> j < length (routes abSite) \<longrightarrow>
      resolvePath abPrepared (outFileName ''index.html'' ''out'' (fst (routes abSite ! j)))
        \<noteq> resolvePath abPrepared (outFileName ''index.html'' ''out'' (fst (routes abSite ! 1)))"
    unfolding len by arith
  have i0: "0 < length (routes abSite)" and i1: "1 < length (routes abSite)"
    by (simp_all add: len)
  from all i0 h0
  have "\<exists>buf. buildResult (invoke noModules (snd (routes abSite ! 0))) = Inr buf
      \<and> stat abBuilt (outFileName ''index.html'' ''out'' (fst (routes abSite ! 0)))
          = Inr (File (bufferBytes buf))"
    by blast
  then have "stat abBuilt ''out/index.html'' = Inr (File (utf8Encode (ascii ''A'')))"
    by (auto simp: r n v)
  moreover from all i1 h1
  have "\<exists>buf. buildResult (invoke noModules (snd (routes abSite ! 1))) = Inr buf
      \<and> stat abBuilt (outFileName ''index.html'' ''out'' (fst (routes abSite ! 1)))
          = Inr (File (bufferBytes buf))"
    by blast
  then have "stat abBuilt ''out/sub/index.html'' = Inr (File (utf8Encode (ascii ''B'')))"
    by (auto simp: r n v)
  ultimately have "stat abBuilt ''out/index.html'' = Inr (File (utf8Encode (ascii ''A'')))
      \<and> stat abBuilt ''out/sub/index.html'' = Inr (File (utf8Encode (ascii ''B'')))"
    by simp
  with a r p b full f s1 s2 show ?thesis
    by simp
qed

text \<open>
  Claim C5 as stated fails for the empty route key and an output directory written with a
  trailing slash: the key does not end in a slash, the joined path does, and the page is
  written to \<open>out/index.html\<close>.
\<close>

theorem out_file_location_counterexample:
  "\<not> endsWith [] ''/''
   \<and> joinPaths ''out/'' [] = ''out/''
   \<and> outFileName ''index.html'' ''out/'' [] = ''out/index.html''
   \<and> outFileName ''index.html'' ''out/'' [] \<noteq> joinPaths ''out/'' []
   \<and> routes emptyKeySite = [([], textRenderer ''A'')]
   \<and> build 0 noModules emptyKeySite ''out/'' True emptyWorld = Some (None, emptyKeyBuilt)
   \<and> stat emptyKeyBuilt ''out/index.html'' = Inr (File (utf8Encode (ascii ''A'')))
   \<and> stat emptyKeyBuilt ''out'' = Inr Dir"
proof -
  have "routes emptyKeySite = [([], textRenderer ''A'')]"
    by (simp add: emptyKeySite_def setRoute_def newSiteGenerator_def)
  moreover have "\<not> endsWith [] ''/''" "joinPaths ''out/'' [] = ''out/''"
    "outFileName ''index.html'' ''out/'' [] = ''out/index.html''"
    "outFileName ''index.html'' ''out/'' [] \<noteq> joinPaths ''out/'' []"
    "build 0 noModules emptyKeySite ''out/'' True emptyWorld = Some (None, emptyKeyBuilt)"
    "stat emptyKeyBuilt ''out/index.html'' = Inr (File (utf8Encode (ascii ''A'')))"
    "stat emptyKeyBuilt ''out'' = Inr Dir"
    by code_simp+
  ultimately show ?thesis
    by simp
qed

subsection \<open>Building a split stream\<close>

lemmas build_eval =
  prepareOutDir_def exists_def stat_def resolvePath_def isAbsolute_def startsWith_def
  endsWith_def normalizeSegments_def normalizeStep_def mkdirRecursive_def outFileName_def
  joinPaths_def normalize_def dirname_def writeFile_def consoleLog_def emptyWorld_def Let_def

lemma root_page_paths:
  "outFileName ''index.html'' ''out'' ''/'' = ''out/index.html''"
  "dirname ''out/index.html'' = ''out''"
  by (simp_all add: build_eval)

lemma root_page_prepare:
  "prepareOutDir ''out'' True emptyWorld = Inr \<lparr>files = [([''out''], Dir)], cwd = [], console = []\<rparr>"
  by (simp add: build_eval)

lemma root_page_mkdir:
  "mkdirRecursive \<lparr>files = [([''out''], Dir)], cwd = [], console = cs\<rparr> ''out''
     = Inr \<lparr>files = [([''out''], Dir)], cwd = [], console = cs\<rparr>"
  by (simp add: build_eval)

lemma root_page_write:
  "writeFile \<lparr>files = [([''out''], Dir)], cwd = [], console = cs\<rparr> ''out/index.html'' bs
     = Inr \<lparr>files = [([''out'', ''index.html''], File bs), ([''out''], Dir)], cwd = [],
            console = cs\<rparr>"
  by (simp add: build_eval)

lemma root_page_build:
  "buildResult (invoke importModule r) = Inr buf \<Longrightarrow>
   build 0 importModule (setRoute ''/'' (Inl r) newSiteGenerator) ''out'' True emptyWorld
     = Some (None,
         \<lparr>files = [([''out'', ''index.html''], File (bufferBytes buf)), ([''out''], Dir)],
          cwd = [], console = [renderingLine ''out/index.html'', doneLine ''out'']\<rparr>)"
  by (simp add: build_def setRoute_def newSiteGenerator_def root_page_prepare root_page_paths
      root_page_mkdir root_page_write consoleLog_def)

lemma split_results:
  "buildResult (Stream [[0xC3], [0xA9]]) = Inr (StringData [65533, 65533])"
  "utf8Encode [65533, 65533] = [0xEF, 0xBF, 0xBD, 0xEF, 0xBF, 0xBD]"
  by (simp_all add: decode_eval buildResult_def)

lemma split_build: "build 0 noModules splitSite ''out'' True emptyWorld = Some (None, splitBuilt)"
  unfolding splitSite_def splitBuilt_def
  using root_page_build [of noModules "Direct (\<lambda>u. Stream [[0xC3], [0xA9]])" "StringData [65533, 65533]"]
  by (simp add: split_results)

lemma split_stat:
  "stat splitBuilt ''out/index.html'' = Inr (File [0xEF, 0xBF, 0xBD, 0xEF, 0xBF, 0xBD])"
  by (simp add: splitBuilt_def build_eval)

lemma split_serve:
  "reqHandler noModules splitSite emptyWorld ''http://localhost:3000/''
     = Inr \<lparr>status = 200, body = Value (Stream [[0xC3], [0xA9]])\<rparr>"
  by (simp add: splitSite_def eval_defs)

text \<open>
  Claim C6 fails on the code.  \<open>build\<close> decodes every chunk of a stream on its own and writes
  the text: for a stream that delivers the two bytes of one character in two chunks the
  written file holds two replacement characters, not the bytes of the stream, which the
  handler passes on unchanged and which decode correctly in one piece.  A byte array is
  written as it is; an unrecognised result makes \<open>build\<close> fail with the invalid render result
  error, and \<open>null\<close> with a type error.
\<close>

theorem build_stream_split_character:
  "buildResult (Stream [[0xC3], [0xA9]]) = Inr (StringData [65533, 65533])
   \<and> bufferBytes (StringData [65533, 65533]) = [0xEF, 0xBF, 0xBD, 0xEF, 0xBF, 0xBD]
   \<and> concat [[0xC3], [0xA9]] = [0xC3, 0xA9 :: byte]
   \<and> build 0 noModules splitSite ''out'' True emptyWorld = Some (None, splitBuilt)
   \<and> stat splitBuilt ''out/index.html'' = Inr (File [0xEF, 0xBF, 0xBD, 0xEF, 0xBF, 0xBD])
   \<and> reqHandler noModules splitSite emptyWorld ''http://localhost:3000/''
        = Inr \<lparr>status = 200, body = Value (Stream [[0xC3], [0xA9]])\<rparr>
   \<and> utf8Encode (decode (concat [[0xC3], [0xA9]])) = [0xC3, 0xA9]
   \<and> buildResult (Bytes [0xC3, 0xA9]) = Inr (ByteData [0xC3, 0xA9])
   \<and> buildResult Other = Inl invalidRenderResult
   \<and> buildResult Null = Inl TypeError"
proof -
  have "utf8Encode (decode (concat [[0xC3], [0xA9]])) = [0xC3, 0xA9]"
    "buildResult (Bytes [0xC3, 0xA9]) = Inr (ByteData [0xC3, 0xA9])"
    "buildResult Other = Inl invalidRenderResult"
    "buildResult Null = Inl TypeError"
    by (simp_all add: buildResult_def decode_eval)
  then show ?thesis
    using split_results split_build split_stat split_serve by simp
qed

end
